(* ===== verification/Prelude.thy ===== *)
theory Prelude
  imports Main "HOL-Library.Word"
begin

text \<open>
  What every component of the applet's model shares: the values of the Go language that the
  sources use (bytes, errors, panics, \<open>uint\<close> arithmetic at the width of the \<open>tamago/arm\<close>
  target, \<open>copy\<close>, big-endian encoding) and the generic list lemmas about cutting a byte string
  into blocks and overwriting a run of blocks.

  \<^item> \<open>go_error\<close> is an \<open>error\<close> value: the format string of the \<open>fmt.Errorf\<close> or
    \<open>errors.New\<close> that made it, with the errors it wraps; \<open>StatusError\<close> is a gRPC status,
    \<open>Sentinel\<close> a named error value such as \<open>context.Canceled\<close>.
  \<^item> \<open>go_panic\<close> is a run-time panic, which is no error value: it passes every \<open>err != nil\<close>.
    \<open>Exit\<close> is the end of the applet by \<open>log.Fatalf\<close> or \<open>klog.Exitf\<close>, which passes them too.
  \<^item> \<open>'a res\<close> is the outcome of a call: a value, an error, or a panic.
\<close>

unbundle bit_operations_syntax

named_theorems uint_simps \<open>unsigned machine arithmetic that does not wrap\<close>
named_theorems block_simps \<open>cutting byte strings into blocks\<close>


section \<open>Bytes, errors, panics\<close>

type_synonym byte = "8 word"
type_synonym bytes = "8 word list"

datatype go_error =
    Errorf string "go_error list"
  | StatusError string string
  | Sentinel string

datatype go_panic =
    NilDeref
  | IndexOutOfRange
  | MakeLenOutOfRange
  | DivideByZero
  | PanicMsg string
  | NoReturn
  | Exit string

datatype (plugins del: size) 'a res = is_Ok: Ok (the_ok: 'a) | Err go_error | is_Panic: Panic go_panic

text \<open>The bytes of a Go string literal.\<close>

definition string_bytes :: "string \<Rightarrow> bytes" where
  "string_bytes s = map of_char s"

lemma length_string_bytes [simp]: "length (string_bytes s) = length s"
  by (simp add: string_bytes_def)


section \<open>The \<open>uint\<close> of the target\<close>

text \<open>
  The applet is built with \<open>GOARCH=arm\<close>, where \<open>uint\<close> and \<open>int\<close> have 32 bits. A
  \<open>uint\<close> is kept as a natural number below \<open>W32\<close>, with the wrap-around of every
  operation written out; \<open>to_int\<close> is the conversion \<open>int(x)\<close>.
\<close>

definition W32 :: nat where
  "W32 = 4294967296"

definition uadd :: "nat \<Rightarrow> nat \<Rightarrow> nat" where
  "uadd a b = (a + b) mod W32"

definition usub :: "nat \<Rightarrow> nat \<Rightarrow> nat" where
  "usub a b = (a + (W32 - b mod W32)) mod W32"

definition umul :: "nat \<Rightarrow> nat \<Rightarrow> nat" where
  "umul a b = (a * b) mod W32"

definition to_int :: "nat \<Rightarrow> int" where
  "to_int a = (if a < W32 div 2 then int a else int a - int W32)"

lemma W32_pos [simp]: "0 < W32"
  by (simp add: W32_def)

lemma uadd_small [simp, uint_simps]: "a + b < W32 \<Longrightarrow> uadd a b = a + b"
  by (simp add: uadd_def)

lemma umul_small [simp, uint_simps]: "a * b < W32 \<Longrightarrow> umul a b = a * b"
  by (simp add: umul_def)

lemma usub_small [simp, uint_simps]: "b \<le> a \<Longrightarrow> a < W32 \<Longrightarrow> usub a b = a - b"
proof -
  assume "b \<le> a" and "a < W32"
  then have "a + (W32 - b mod W32) = (a - b) + W32" by simp
  with \<open>a < W32\<close> show ?thesis by (simp add: usub_def)
qed

lemma usub_wraps: "a < b \<Longrightarrow> b < W32 \<Longrightarrow> usub a b = W32 + a - b"
  by (simp add: usub_def)

lemma uint_bounds [simp]: "uadd a b < W32" "usub a b < W32" "umul a b < W32"
  by (simp_all add: uadd_def usub_def umul_def)

lemma to_int_small [simp, uint_simps]: "a < W32 div 2 \<Longrightarrow> to_int a = int a"
  by (simp add: to_int_def)


section \<open>Slices\<close>

text \<open>\<open>copy(dst, src)\<close> and \<open>copy(dst[i:], src)\<close>: the contents of \<open>dst\<close> afterwards.\<close>

definition gocopy :: "'a list \<Rightarrow> 'a list \<Rightarrow> 'a list" where
  "gocopy dst src = take (length dst) src @ drop (length src) dst"

definition gocopy_at :: "nat \<Rightarrow> 'a list \<Rightarrow> 'a list \<Rightarrow> 'a list" where
  "gocopy_at i dst src = take i dst @ gocopy (drop i dst) src"

lemma length_gocopy [simp]: "length (gocopy dst src) = length dst"
  by (auto simp: gocopy_def)

lemma gocopy_full [simp]: "length src = length dst \<Longrightarrow> gocopy dst src = src"
  by (simp add: gocopy_def)

lemma length_gocopy_at [simp]: "length (gocopy_at i dst src) = length dst"
  by (auto simp: gocopy_at_def)

text \<open>Writing a run of elements over a list, from an index on.\<close>

definition overwrite :: "nat \<Rightarrow> 'a list \<Rightarrow> 'a list \<Rightarrow> 'a list" where
  "overwrite w xs ys = take w ys @ xs @ drop (w + length xs) ys"

lemma length_overwrite [simp]: "w + length xs \<le> length ys \<Longrightarrow> length (overwrite w xs ys) = length ys"
  by (simp add: overwrite_def)

lemma overwrite_Nil [simp]: "overwrite w [] ys = ys"
  by (simp add: overwrite_def)

lemma overwrite_append:
  "w + length xs + length zs \<le> length ys \<Longrightarrow>
     overwrite (w + length xs) zs (overwrite w xs ys) = overwrite w (xs @ zs) ys"
  by (simp add: overwrite_def ac_simps)

lemma nth_overwrite:
  assumes "w + length xs \<le> length ys" and "i < length ys"
  shows "overwrite w xs ys ! i = (if w \<le> i \<and> i < w + length xs then xs ! (i - w) else ys ! i)"
  using assms by (auto simp: overwrite_def nth_append)

lemma take_overwrite_le: "n \<le> w \<Longrightarrow> w \<le> length ys \<Longrightarrow> take n (overwrite w xs ys) = take n ys"
  by (simp add: overwrite_def min_def)

lemma drop_overwrite_ge:
  "w + length xs \<le> n \<Longrightarrow> n \<le> length ys \<Longrightarrow> drop n (overwrite w xs ys) = drop n ys"
  by (simp add: overwrite_def)

lemma set_overwrite: "x \<in> set (overwrite w xs ys) \<Longrightarrow> x \<in> set xs \<or> x \<in> set ys"
  by (auto simp: overwrite_def dest: in_set_takeD in_set_dropD)


section \<open>Blocks\<close>

text \<open>
  Cutting a string into blocks of \<open>n\<close> bytes (the last one may be short), and the zero padding
  that both devices append to a write whose length is no multiple of the block size.
\<close>

fun chunks :: "nat \<Rightarrow> 'a list \<Rightarrow> 'a list list" where
  "chunks n [] = []"
| "chunks n (x # xs) = (if n = 0 then [x # xs] else take n (x # xs) # chunks n (drop n (x # xs)))"

definition pad_block :: "nat \<Rightarrow> bytes \<Rightarrow> bytes" where
  "pad_block n xs = (if length xs mod n = 0 then xs else xs @ replicate (n - length xs mod n) 0)"

text \<open>Blocks a string occupies.\<close>

definition nblocks :: "nat \<Rightarrow> nat \<Rightarrow> nat" where
  "nblocks n len = (len + n - 1) div n"

definition to_blocks :: "nat \<Rightarrow> bytes \<Rightarrow> bytes list" where
  "to_blocks n xs = chunks n (pad_block n xs)"

lemma chunks_rec:
  "chunks n xs = (if xs = [] then [] else if n = 0 then [xs] else take n xs # chunks n (drop n xs))"
  by (cases xs) auto

lemma chunks_step: "0 < n \<Longrightarrow> xs \<noteq> [] \<Longrightarrow> chunks n xs = take n xs # chunks n (drop n xs)"
  by (subst chunks_rec) simp

lemma concat_chunks [simp]: "concat (chunks n xs) = xs"
proof (induction n xs rule: chunks.induct)
  case (2 n x xs)
  show ?case
  proof (cases "n = 0")
    case False
    with 2 have "concat (chunks n (drop n (x # xs))) = drop n (x # xs)" by blast
    moreover have "chunks n (x # xs) = take n (x # xs) # chunks n (drop n (x # xs))"
      using False by (intro chunks_step) auto
    ultimately show ?thesis by (simp only: concat.simps append_take_drop_id)
  qed simp
qed simp

lemma chunks_append_block:
  "0 < n \<Longrightarrow> length xs = n \<Longrightarrow> chunks n (xs @ ys) = xs # chunks n ys"
  by (subst chunks_rec) auto

lemma chunks_concat [block_simps]:
  "0 < n \<Longrightarrow> \<forall>b \<in> set bs. length b = n \<Longrightarrow> chunks n (concat bs) = bs"
  by (induction bs) (auto simp: chunks_append_block)

lemma length_chunks_dvd: "0 < n \<Longrightarrow> length xs = k * n \<Longrightarrow> length (chunks n xs) = k"
proof (induction k arbitrary: xs)
  case (Suc k)
  then have "xs \<noteq> []" and "length (drop n xs) = k * n" by auto
  with Suc show ?case by (subst chunks_rec) simp
qed simp

lemma chunks_blocks: "0 < n \<Longrightarrow> length xs = k * n \<Longrightarrow> b \<in> set (chunks n xs) \<Longrightarrow> length b = n"
proof (induction k arbitrary: xs)
  case (Suc k)
  then have *: "xs \<noteq> []" "length (drop n xs) = k * n" "n \<le> length xs" by auto
  with Suc.prems chunks_step [of n xs] have "b = take n xs \<or> b \<in> set (chunks n (drop n xs))"
    by auto
  then show ?case using Suc.IH [OF Suc.prems(1) *(2)] * by auto
qed simp

lemma chunks_append:
  "0 < n \<Longrightarrow> length xs = k * n \<Longrightarrow> chunks n (xs @ ys) = chunks n xs @ chunks n ys"
proof (induction k arbitrary: xs)
  case (Suc k)
  then have *: "xs \<noteq> []" "length (drop n xs) = k * n" "n \<le> length xs" by auto
  have "chunks n (xs @ ys) = take n xs # chunks n (drop n xs @ ys)"
    using * Suc.prems chunks_step [of n "xs @ ys"] by simp
  then show ?case
    using Suc.IH [OF Suc.prems(1) *(2)] chunks_step [of n xs] * Suc.prems by simp
qed simp

lemma take_chunks:
  "0 < n \<Longrightarrow> length xs = k * n \<Longrightarrow> i \<le> k \<Longrightarrow> take i (chunks n xs) = chunks n (take (i * n) xs)"
proof -
  assume a: "0 < n" "length xs = k * n" "i \<le> k"
  have l: "length (take (i * n) xs) = i * n" using a by (simp add: min_def)
  have "chunks n xs = chunks n (take (i * n) xs) @ chunks n (drop (i * n) xs)"
    using chunks_append [OF a(1) l, of "drop (i * n) xs"] by simp
  with length_chunks_dvd [OF a(1) l] show ?thesis by simp
qed

lemma pad_block_length:
  assumes "0 < n" shows "length (pad_block n xs) = nblocks n (length xs) * n"
proof (cases "length xs mod n = 0")
  case True
  then obtain k where k: "length xs = k * n" by (metis dvd_div_mult_self mod_0_imp_dvd)
  have "(k * n + n - 1) div n = k" using assms by (intro div_nat_eqI) (auto simp: algebra_simps)
  with True k show ?thesis by (simp add: pad_block_def nblocks_def)
next
  case False
  define q r where "q = length xs div n" and "r = length xs mod n"
  have l: "length xs = q * n + r" and r: "0 < r" "r < n"
    using False assms by (auto simp: q_def r_def)
  have "(q * n + r + n - 1) div n = Suc q"
    using r assms by (intro div_nat_eqI) (auto simp: algebra_simps)
  with l r show ?thesis by (simp add: pad_block_def nblocks_def r_def [symmetric])
qed

lemma pad_block_prefix: "\<exists>zs. pad_block n xs = xs @ zs"
  by (auto simp: pad_block_def)

lemma concat_to_blocks: "concat (to_blocks n xs) = pad_block n xs"
  by (simp add: to_blocks_def)

lemma length_to_blocks [block_simps]: "0 < n \<Longrightarrow> length (to_blocks n xs) = nblocks n (length xs)"
  by (simp add: to_blocks_def length_chunks_dvd pad_block_length)

lemma to_blocks_length [block_simps]: "0 < n \<Longrightarrow> b \<in> set (to_blocks n xs) \<Longrightarrow> length b = n"
  using chunks_blocks pad_block_length by (metis to_blocks_def)

lemma nblocks_pos: "0 < n \<Longrightarrow> 0 < len \<Longrightarrow> 0 < nblocks n len"
  by (simp add: nblocks_def div_greater_zero_iff)

lemma nblocks_mult: "0 < n \<Longrightarrow> nblocks n (k * n) = k"
  unfolding nblocks_def by (intro div_nat_eqI) (auto simp: algebra_simps)

lemma nblocks_mono: "a \<le> b \<Longrightarrow> nblocks n a \<le> nblocks n b"
  by (simp add: nblocks_def div_le_mono)

lemma nblocks_le_iff: "0 < n \<Longrightarrow> nblocks n len \<le> k \<longleftrightarrow> len \<le> k * n"
proof
  assume n: "0 < n"
  { assume "len \<le> k * n"
    then show "nblocks n len \<le> k" using nblocks_mono nblocks_mult [OF n] by metis }
  assume "nblocks n len \<le> k"
  then have "length (pad_block n (replicate len 0)) \<le> k * n"
    using pad_block_length [OF n, of "replicate len 0"] by simp
  then show "len \<le> k * n"
    using pad_block_prefix [of n "replicate len 0"] by fastforce
qed

lemma length_concat_blocks [block_simps]:
  "\<forall>b \<in> set bs. length b = n \<Longrightarrow> length (concat bs) = length bs * n"
  by (induction bs) auto

lemma concat_drop_blocks:
  "\<forall>b \<in> set bs. length b = n \<Longrightarrow> concat (drop i bs) = drop (i * n) (concat bs)"
proof (induction bs arbitrary: i)
  case (Cons b bs)
  then show ?case by (cases i) auto
qed simp

lemma concat_take_blocks:
  "\<forall>b \<in> set bs. length b = n \<Longrightarrow> concat (take i bs) = take (i * n) (concat bs)"
proof (induction bs arbitrary: i)
  case (Cons b bs)
  then show ?case by (cases i) auto
qed simp

lemma nth_block:
  "\<forall>b \<in> set bs. length b = n \<Longrightarrow> i < length bs \<Longrightarrow> bs ! i = take n (drop (i * n) (concat bs))"
proof (induction bs arbitrary: i)
  case (Cons b bs)
  then show ?case by (cases i) auto
qed simp


section \<open>Big-endian integers\<close>

text \<open>\<open>binary.BigEndian.PutUint\<^emph>\<open>N\<close>\<close> and \<open>Uint\<^emph>\<open>N\<close>\<close> at any width.\<close>

fun be_put :: "nat \<Rightarrow> 'a::len word \<Rightarrow> bytes" where
  "be_put 0 w = []"
| "be_put (Suc k) w = ucast (drop_bit (8 * k) w) # be_put k w"

definition be_get :: "bytes \<Rightarrow> 'a::len word" where
  "be_get xs = foldl (\<lambda>a b. push_bit 8 a OR ucast b) 0 xs"

lemma length_be_put [simp]: "length (be_put k w) = k"
  by (induction k) auto

lemma be_get_acc:
  fixes a :: "'a::len word"
  shows "foldl (\<lambda>a b. push_bit 8 a OR ucast (b :: byte)) a (be_put k w) =
    push_bit (8 * k) a OR take_bit (8 * k) (w :: 'a word)"
proof (induction k arbitrary: a)
  case (Suc k)
  show ?case
    by (simp only: be_put.simps foldl_Cons Suc.IH, rule bit_word_eqI)
      (auto simp: bit_simps not_less not_le ac_simps)
qed simp

lemma be_get_put: "be_get (be_put k w) = take_bit (8 * k) (w :: 'a::len word)"
  by (simp add: be_get_def be_get_acc)

lemma be_get_put_id [simp]: "LENGTH('a) \<le> 8 * k \<Longrightarrow> be_get (be_put k w) = (w :: 'a::len word)"
  by (simp add: be_get_put take_bit_word_eq_self)

lemma be_get_acc_bit:
  fixes a :: "'a::len word"
  shows "bit (foldl (\<lambda>a b. push_bit 8 a OR ucast (b :: byte)) a xs) n \<longleftrightarrow> n < LENGTH('a) \<and>
    (if n < 8 * length xs then bit (xs ! (length xs - 1 - n div 8)) (n mod 8) else bit a (n - 8 * length xs))"
proof (induction xs arbitrary: a)
  case Nil
  then show ?case using bit_imp_le_length [of a n] by auto
next
  case (Cons b xs)
  consider "n < 8 * length xs" | "8 * length xs \<le> n" "n < 8 * length xs + 8" | "8 * length xs + 8 \<le> n" by linarith
  then show ?case
  proof cases
    case 1
    then have "n div 8 < length xs" by (simp add: less_mult_imp_div_less mult.commute)
    then have "(b # xs) ! (length xs - n div 8) = xs ! (length xs - 1 - n div 8)" by (simp add: nth_Cons')
    with 1 show ?thesis by (simp add: Cons.IH)
  next
    case 2
    then have "n div 8 = length xs" by (intro div_nat_eqI) simp_all
    moreover have "n - 8 * length xs < 8" "n mod 8 = n - 8 * length xs"
      using 2 calculation by (simp_all add: minus_mult_div_eq_mod [symmetric])
    ultimately show ?thesis using 2 by (auto simp: Cons.IH bit_simps dest: bit_imp_le_length)
  next
    case 3
    then have "n - 8 * length xs - 8 = n - (8 + 8 * length xs)" by simp
    with 3 show ?thesis by (auto simp: Cons.IH bit_simps dest: bit_imp_le_length)
  qed
qed

lemma be_put_acc:
  "8 * length xs \<le> LENGTH('a) \<Longrightarrow>
    be_put (length xs) (foldl (\<lambda>a b. push_bit 8 a OR ucast (b :: byte)) (a :: 'a::len word) xs) = xs"
proof (induction xs arbitrary: a)
  case (Cons b xs)
  let ?f = "\<lambda>(a :: 'a word) b. push_bit 8 a OR ucast (b :: byte)"
  have "(ucast (drop_bit (8 * length xs) (foldl ?f (push_bit 8 a OR ucast b) xs)) :: byte) = b"
    using Cons.prems by (intro bit_word_eqI) (auto simp: bit_simps be_get_acc_bit)
  with Cons show ?case by simp
qed simp

lemma be_put_get: "length xs = k \<Longrightarrow> 8 * k \<le> LENGTH('a) \<Longrightarrow> be_put k (be_get xs :: 'a::len word) = xs"
  using be_put_acc [of xs 0] by (auto simp: be_get_def)

end
