(* ===== verification/Sha256.thy ===== *)
theory Sha256
  imports Prelude
begin

text \<open>
  \<open>crypto/sha256\<close> of the Go standard library, as the sources use it: \<open>Sum256\<close>, the SHA-256
  digest of a byte string (FIPS 180-4). The 32-bit words of the algorithm are integers below
  \<open>2 ^ 32\<close>, with the wrap-around of an addition written as \<open>take_bit 32\<close>, so that a digest
  can be computed in the logic (theory \<open>Vectors\<close>). The proofs of the other theories use
  only that a digest has 32 bytes.
\<close>

type_synonym sha_state = "int \<times> int \<times> int \<times> int \<times> int \<times> int \<times> int \<times> int"

definition add32 :: "int \<Rightarrow> int \<Rightarrow> int" where
  "add32 x y = take_bit 32 (x + y)"

definition rotr32 :: "nat \<Rightarrow> int \<Rightarrow> int" where
  "rotr32 n x = drop_bit n x OR take_bit 32 (push_bit (32 - n) x)"

definition sha_ch :: "int \<Rightarrow> int \<Rightarrow> int \<Rightarrow> int" where
  "sha_ch x y z = (x AND y) XOR ((4294967295 XOR x) AND z)"

definition sha_maj :: "int \<Rightarrow> int \<Rightarrow> int \<Rightarrow> int" where
  "sha_maj x y z = (x AND y) XOR (x AND z) XOR (y AND z)"

definition sha_Sigma0 :: "int \<Rightarrow> int" where
  "sha_Sigma0 x = rotr32 2 x XOR rotr32 13 x XOR rotr32 22 x"

definition sha_Sigma1 :: "int \<Rightarrow> int" where
  "sha_Sigma1 x = rotr32 6 x XOR rotr32 11 x XOR rotr32 25 x"

definition sha_sigma0 :: "int \<Rightarrow> int" where
  "sha_sigma0 x = rotr32 7 x XOR rotr32 18 x XOR drop_bit 3 x"

definition sha_sigma1 :: "int \<Rightarrow> int" where
  "sha_sigma1 x = rotr32 17 x XOR rotr32 19 x XOR drop_bit 10 x"

definition sha_K :: "int list" where
  "sha_K = [
    1116352408, 1899447441, 3049323471, 3921009573, 961987163, 1508970993, 2453635748, 2870763221,
    3624381080, 310598401, 607225278, 1426881987, 1925078388, 2162078206, 2614888103, 3248222580,
    3835390401, 4022224774, 264347078, 604807628, 770255983, 1249150122, 1555081692, 1996064986,
    2554220882, 2821834349, 2952996808, 3210313671, 3336571891, 3584528711, 113926993, 338241895,
    666307205, 773529912, 1294757372, 1396182291, 1695183700, 1986661051, 2177026350, 2456956037,
    2730485921, 2820302411, 3259730800, 3345764771, 3516065817, 3600352804, 4094571909, 275423344,
    430227734, 506948616, 659060556, 883997877, 958139571, 1322822218, 1537002063, 1747873779,
    1955562222, 2024104815, 2227730452, 2361852424, 2428436474, 2756734187, 3204031479, 3329325298]"

definition sha_H0 :: sha_state where
  "sha_H0 = (1779033703, 3144134277, 1013904242, 2773480762,
             1359893119, 2600822924, 528734635, 1541459225)"

fun sha_round :: "sha_state \<Rightarrow> int \<Rightarrow> int \<Rightarrow> sha_state" where
  "sha_round (a, b, c, d, e, f, g, h) k w =
     (let t1 = add32 (add32 (add32 (add32 h (sha_Sigma1 e)) (sha_ch e f g)) k) w;
          t2 = add32 (sha_Sigma0 a) (sha_maj a b c)
      in (add32 t1 t2, a, b, c, add32 d t1, e, f, g))"

text \<open>The message schedule is a window of sixteen words: the oldest is used up, a new one appended.\<close>

fun sha_rounds :: "int list \<Rightarrow> int list \<Rightarrow> sha_state \<Rightarrow> sha_state" where
  "sha_rounds (k # ks) (w # ws) s =
     sha_rounds ks
       (ws @ [add32 (add32 (add32 (sha_sigma1 (ws ! 13)) (ws ! 8)) (sha_sigma0 (ws ! 0))) w])
       (sha_round s k w)"
| "sha_rounds _ _ s = s"

fun sha_add :: "sha_state \<Rightarrow> sha_state \<Rightarrow> sha_state" where
  "sha_add (a, b, c, d, e, f, g, h) (a', b', c', d', e', f', g', h') =
     (add32 a a', add32 b b', add32 c c', add32 d d',
      add32 e e', add32 f f', add32 g g', add32 h h')"

fun sha_words :: "bytes \<Rightarrow> int list" where
  "sha_words (a # b # c # d # xs) =
     (16777216 * uint a + 65536 * uint b + 256 * uint c + uint d) # sha_words xs"
| "sha_words _ = []"

function sha_compress :: "bytes \<Rightarrow> sha_state \<Rightarrow> sha_state" where
  "sha_compress xs s =
     (if length xs < 64 then s
      else sha_compress (drop 64 xs) (sha_add s (sha_rounds sha_K (sha_words (take 64 xs)) s)))"
  by pat_completeness auto
termination
  by (relation "measure (\<lambda>(xs, s). length xs)") auto

declare sha_compress.simps [simp del]

definition sha_pad :: "bytes \<Rightarrow> bytes" where
  "sha_pad xs = xs @ [128] @ replicate ((119 - length xs mod 64) mod 64) 0
     @ be_put 8 (of_nat (8 * length xs) :: 64 word)"

definition sha_bytes :: "int \<Rightarrow> bytes" where
  "sha_bytes w = [word_of_int (drop_bit 24 w), word_of_int (take_bit 8 (drop_bit 16 w)),
     word_of_int (take_bit 8 (drop_bit 8 w)), word_of_int (take_bit 8 w)]"

fun sha_out :: "sha_state \<Rightarrow> bytes" where
  "sha_out (a, b, c, d, e, f, g, h) =
     sha_bytes a @ sha_bytes b @ sha_bytes c @ sha_bytes d
     @ sha_bytes e @ sha_bytes f @ sha_bytes g @ sha_bytes h"

definition Sum256 :: "bytes \<Rightarrow> bytes" where
  "Sum256 xs = sha_out (sha_compress (sha_pad xs) sha_H0)"

lemma length_sha_out: "length (sha_out s) = 32"
  by (induction s rule: sha_out.induct) (simp add: sha_bytes_def)

lemma length_Sum256 [simp]: "length (Sum256 xs) = 32"
  by (simp add: Sum256_def length_sha_out)

end
