(* ===== verification/Device.thy ===== *)
theory Device
  imports Prelude
begin

text \<open>
  The block storage interface \<open>BlockReaderWriter\<close> of \<open>slots/journal.go\<close>, its contract as the
  locale \<open>block_device\<close>, and the in-memory device of \<open>testonly/memdev.go\<close>, the first of the two
  devices of the repository that meet the contract (the second is in theory \<open>Mmc\<close>).

  A Go interface value is a record of its methods. A method that mutates the device takes the
  device's state and returns the new one; \<open>ReadBlocks\<close> fills a buffer, so it takes the old
  contents of the buffer and returns the new ones.
\<close>

section \<open>The interface\<close>

record 'd BlockReaderWriter =
  BlockSize :: nat
  ReadBlocks :: "'d \<Rightarrow> nat \<Rightarrow> bytes \<Rightarrow> bytes res"
  WriteBlocks :: "'d \<Rightarrow> nat \<Rightarrow> bytes \<Rightarrow> nat res \<times> 'd"

text \<open>
  What the journal relies on: a device is a list of blocks of the same size; reading one block
  gives its contents; a write that reports success has stored every block of the (zero padded)
  data and returns their number; a write that reports an error has stored a proper prefix of the
  blocks, and nothing else.
\<close>

locale block_device =
  fixes dev :: "'d BlockReaderWriter"
    and blocks :: "'d \<Rightarrow> bytes list"
    and ok :: "'d \<Rightarrow> bool"
  assumes bs_pos: "0 < BlockSize dev"
    and bs_small: "BlockSize dev < W32"
    and block_length: "ok d \<Longrightarrow> b \<in> set (blocks d) \<Longrightarrow> length b = BlockSize dev"
    and read_block: "ok d \<Longrightarrow> lba < length (blocks d) \<Longrightarrow> length b = BlockSize dev \<Longrightarrow>
      ReadBlocks dev d lba b = Ok (blocks d ! lba)"
    and write_ok: "ok d \<Longrightarrow> data \<noteq> [] \<Longrightarrow>
      lba + nblocks (BlockSize dev) (length data) \<le> length (blocks d) \<Longrightarrow>
      WriteBlocks dev d lba data = (Ok n, d') \<Longrightarrow>
      n = nblocks (BlockSize dev) (length data) \<and> ok d' \<and>
      blocks d' = overwrite lba (to_blocks (BlockSize dev) data) (blocks d)"
    and write_err: "ok d \<Longrightarrow> data \<noteq> [] \<Longrightarrow>
      lba + nblocks (BlockSize dev) (length data) \<le> length (blocks d) \<Longrightarrow>
      WriteBlocks dev d lba data = (Err e, d') \<Longrightarrow>
      ok d' \<and> (\<exists>k < nblocks (BlockSize dev) (length data).
        blocks d' = overwrite lba (take k (to_blocks (BlockSize dev) data)) (blocks d))"
    and write_no_panic: "ok d \<Longrightarrow> data \<noteq> [] \<Longrightarrow>
      lba + nblocks (BlockSize dev) (length data) \<le> length (blocks d) \<Longrightarrow>
      WriteBlocks dev d lba data \<noteq> (Panic p, d')"
begin

lemma blocks_length: "ok d \<Longrightarrow> \<forall>b \<in> set (blocks d). length b = BlockSize dev"
  using block_length by blast

text \<open>Whatever a write reports, it has stored the first \<open>k\<close> blocks of its data, for some \<open>k\<close>.\<close>

lemma write_prefix:
  assumes "ok d" "data \<noteq> []" "lba + nblocks (BlockSize dev) (length data) \<le> length (blocks d)"
    and "WriteBlocks dev d lba data = (r, d')"
  shows "ok d' \<and> (\<exists>k \<le> nblocks (BlockSize dev) (length data).
    blocks d' = overwrite lba (take k (to_blocks (BlockSize dev) data)) (blocks d) \<and>
    (is_Ok r \<longleftrightarrow> k = nblocks (BlockSize dev) (length data)))"
proof (cases r)
  case (Ok n)
  with write_ok [OF assms(1-3)] assms(4)
  have "ok d'" "blocks d' = overwrite lba (to_blocks (BlockSize dev) data) (blocks d)" by auto
  with Ok show ?thesis
    by (intro conjI exI [of _ "nblocks (BlockSize dev) (length data)"])
      (auto simp: length_to_blocks [OF bs_pos])
next
  case (Err e)
  with write_err [OF assms(1-3)] assms(4) obtain k where "ok d'"
    "k < nblocks (BlockSize dev) (length data)"
    "blocks d' = overwrite lba (take k (to_blocks (BlockSize dev) data)) (blocks d)" by blast
  with Err show ?thesis by (intro conjI exI [of _ k]) auto
next
  case (Panic p)
  with write_no_panic [OF assms(1-3)] assms(4) show ?thesis by blast
qed

lemma write_length:
  assumes "ok d" "data \<noteq> []" "lba + nblocks (BlockSize dev) (length data) \<le> length (blocks d)"
    and "WriteBlocks dev d lba data = (r, d')"
  shows "length (blocks d') = length (blocks d)"
proof -
  from write_prefix [OF assms] obtain k where "k \<le> nblocks (BlockSize dev) (length data)"
    "blocks d' = overwrite lba (take k (to_blocks (BlockSize dev) data)) (blocks d)" by blast
  with assms(3) show ?thesis by (simp add: length_to_blocks [OF bs_pos])
qed

text \<open>A write leaves the blocks before its range and after it alone.\<close>

lemma write_frame:
  assumes "ok d" "data \<noteq> []" "lba + nblocks (BlockSize dev) (length data) \<le> length (blocks d)"
    and "WriteBlocks dev d lba data = (r, d')"
    and "i < length (blocks d)" "i < lba \<or> lba + nblocks (BlockSize dev) (length data) \<le> i"
  shows "blocks d' ! i = blocks d ! i"
proof -
  from write_prefix [OF assms(1-4)] obtain k where k: "k \<le> nblocks (BlockSize dev) (length data)"
    and b: "blocks d' = overwrite lba (take k (to_blocks (BlockSize dev) data)) (blocks d)" by blast
  with assms(3,5,6) show ?thesis
    by (auto simp: nth_overwrite length_to_blocks [OF bs_pos])
qed

end


text \<open>A device whose writes within its range do not fail.\<close>

definition reliable :: "'d BlockReaderWriter \<Rightarrow> ('d \<Rightarrow> bytes list) \<Rightarrow> ('d \<Rightarrow> bool) \<Rightarrow> bool" where
  "reliable dev blocks ok \<longleftrightarrow> (\<forall>d lba data. ok d \<longrightarrow> data \<noteq> [] \<longrightarrow>
     lba + nblocks (BlockSize dev) (length data) \<le> length (blocks d) \<longrightarrow> (\<exists>n d'. WriteBlocks dev d lba data = (Ok n, d')))"


section \<open>The in-memory device\<close>

definition MemBlockSize :: nat where
  "MemBlockSize = 512"

text \<open>The hook \<open>OnBlockWritten\<close> is a closure over the device: it may change the stored blocks.\<close>

record memdev =
  Storage :: "bytes list"
  OnBlockWritten :: "(nat \<Rightarrow> bytes list \<Rightarrow> bytes list) option"

fun memdev_read_loop :: "bytes list \<Rightarrow> nat \<Rightarrow> nat \<Rightarrow> nat \<Rightarrow> bytes \<Rightarrow> bytes" where
  "memdev_read_loop st lba i 0 b = b"
| "memdev_read_loop st lba i (Suc n) b =
     memdev_read_loop st lba (Suc i) n (gocopy_at (i * MemBlockSize) b (st ! (lba + i)))"

definition memdev_ReadBlocks :: "memdev \<Rightarrow> nat \<Rightarrow> bytes \<Rightarrow> bytes res" where
  "memdev_ReadBlocks md lba b =
     (let l = length (Storage md) in
      if l \<le> lba then Err (Errorf ''lba (%d) >= device blocks (%d)'' [])
      else
        let bl = length b div MemBlockSize;
            bl' = (if l < uadd lba bl then usub l lba else bl)
        in Ok (memdev_read_loop (Storage md) lba 0 bl' b))"

fun memdev_write_loop :: "memdev \<Rightarrow> nat \<Rightarrow> bytes \<Rightarrow> nat \<Rightarrow> nat \<Rightarrow> memdev" where
  "memdev_write_loop md lba b i 0 = md"
| "memdev_write_loop md lba b i (Suc n) =
     (let st = (Storage md)
            [lba + i := gocopy (Storage md ! (lba + i)) (drop (i * MemBlockSize) b)];
          st' = (case OnBlockWritten md of None \<Rightarrow> st | Some hook \<Rightarrow> hook (lba + i) st)
      in memdev_write_loop (md\<lparr>Storage := st'\<rparr>) lba b (Suc i) n)"

definition memdev_WriteBlocks :: "memdev \<Rightarrow> nat \<Rightarrow> bytes \<Rightarrow> nat res \<times> memdev" where
  "memdev_WriteBlocks md lba b =
     (let l = length (Storage md) in
      if l \<le> lba then (Err (Errorf ''lba (%d) >= device blocks (%d)'' []), md)
      else
        let b' = pad_block MemBlockSize b;
            bl = length b' div MemBlockSize;
            bl' = (if l < uadd lba bl then usub l lba else bl)
        in (Ok bl', memdev_write_loop md lba b' 0 bl'))"

definition NewMemDev :: "nat \<Rightarrow> memdev" where
  "NewMemDev numBlocks =
     \<lparr>Storage = replicate numBlocks (replicate MemBlockSize 0), OnBlockWritten = None\<rparr>"

definition MemDev :: "memdev BlockReaderWriter" where
  "MemDev = \<lparr>BlockSize = MemBlockSize, ReadBlocks = memdev_ReadBlocks,
     WriteBlocks = memdev_WriteBlocks\<rparr>"

text \<open>
  A device as \<open>NewMemDev\<close> makes it: no hook, blocks of 512 bytes, and a length that is a Go
  \<open>int\<close>.
\<close>

definition memdev_ok :: "memdev \<Rightarrow> bool" where
  "memdev_ok md \<longleftrightarrow> OnBlockWritten md = None \<and> length (Storage md) < W32 div 2 \<and>
     list_all (\<lambda>b. length b = MemBlockSize) (Storage md)"

lemma NewMemDev_ok: "n < W32 div 2 \<Longrightarrow> memdev_ok (NewMemDev n)"
  by (simp add: memdev_ok_def NewMemDev_def list_all_iff)

lemma MemDev_simps [simp]:
  "BlockSize MemDev = MemBlockSize" "ReadBlocks MemDev = memdev_ReadBlocks"
  "WriteBlocks MemDev = memdev_WriteBlocks"
  by (simp_all add: MemDev_def)

lemma MemBlockSize_pos [simp]: "0 < MemBlockSize"
  by (simp add: MemBlockSize_def)

lemma memdev_ok_blocks: "memdev_ok md \<Longrightarrow> b \<in> set (Storage md) \<Longrightarrow> length b = MemBlockSize"
  by (simp add: memdev_ok_def list_all_iff)

lemma memdev_read_one:
  assumes "memdev_ok md" "lba < length (Storage md)" "length b = MemBlockSize"
  shows "memdev_ReadBlocks md lba b = Ok (Storage md ! lba)"
proof -
  have s: "uadd lba (Suc 0) = lba + 1"
    using assms uadd_small [of lba "Suc 0"] by (simp add: memdev_ok_def W32_def)
  have "length (Storage md ! lba) = MemBlockSize"
    using assms by (intro memdev_ok_blocks) auto
  then show ?thesis
    using assms s by (simp add: memdev_ReadBlocks_def gocopy_at_def)
qed

text \<open>With no hook, the write loop stores the blocks of \<open>b\<close> one after the other.\<close>

lemma memdev_write_loop_spec:
  assumes "OnBlockWritten md = None" and "\<forall>x \<in> set (Storage md). length x = MemBlockSize"
    and "length b = m * MemBlockSize" and "i + n \<le> m" and "lba + i + n \<le> length (Storage md)"
  shows "memdev_write_loop md lba b i n =
    md\<lparr>Storage := overwrite (lba + i) (take n (drop i (chunks MemBlockSize b))) (Storage md)\<rparr>"
  using assms
proof (induction n arbitrary: md i)
  case (Suc n)
  let ?c = "chunks MemBlockSize b"
  have lc: "length ?c = m" and bl: "\<forall>x \<in> set ?c. length x = MemBlockSize"
    using Suc.prems(3) length_chunks_dvd chunks_blocks by (metis MemBlockSize_pos)+
  let ?x = "?c ! i"
  have i: "i < length ?c" using Suc.prems(4) lc by simp
  have x: "?x = take MemBlockSize (drop (i * MemBlockSize) b)"
    using nth_block [OF bl i] by simp
  have lx: "length ?x = MemBlockSize" using bl i by auto
  have cp: "gocopy (Storage md ! (lba + i)) (drop (i * MemBlockSize) b) = ?x"
  proof -
    have "length (Storage md ! (lba + i)) = MemBlockSize" using Suc.prems by auto
    moreover have "MemBlockSize \<le> length (drop (i * MemBlockSize) b)"
      using lx x by (metis length_take min.bounded_iff order_refl)
    ultimately show ?thesis by (simp add: gocopy_def x)
  qed
  let ?md = "md\<lparr>Storage := (Storage md)[lba + i := ?x]\<rparr>"
  have sub: "set ((Storage md)[lba + i := ?x]) \<subseteq> insert ?x (set (Storage md))"
    by (rule set_update_subset_insert)
  have step: "memdev_write_loop md lba b i (Suc n) = memdev_write_loop ?md lba b (Suc i) n"
    using Suc.prems(1) by (simp add: cp)
  have up: "(Storage md)[lba + i := ?x] = overwrite (lba + i) [?x] (Storage md)"
    using Suc.prems(5) by (simp add: overwrite_def upd_conv_take_nth_drop)
  have "memdev_write_loop ?md lba b (Suc i) n =
    ?md\<lparr>Storage := overwrite (lba + Suc i) (take n (drop (Suc i) ?c)) (Storage ?md)\<rparr>"
    using Suc.prems lx sub by (intro Suc.IH) auto
  also have "overwrite (lba + Suc i) (take n (drop (Suc i) ?c)) (Storage ?md) =
    overwrite (lba + i) (?x # take n (drop (Suc i) ?c)) (Storage md)"
    using overwrite_append [of "lba + i" "[?x]" "take n (drop (Suc i) ?c)" "Storage md"]
      Suc.prems(4,5) lc by (simp add: up)
  also have "?x # take n (drop (Suc i) ?c) = take (Suc n) (drop i ?c)"
    using i by (simp add: Cons_nth_drop_Suc [symmetric])
  finally show ?case using step by simp
qed simp

lemma memdev_write_all:
  assumes "memdev_ok md" and "data \<noteq> []"
    and "lba + nblocks MemBlockSize (length data) \<le> length (Storage md)"
  shows "memdev_WriteBlocks md lba data = (Ok (nblocks MemBlockSize (length data)),
    md\<lparr>Storage := overwrite lba (to_blocks MemBlockSize data) (Storage md)\<rparr>)"
proof -
  let ?n = "nblocks MemBlockSize (length data)"
  have n: "0 < ?n" using assms(2) by (simp add: nblocks_pos)
  have len: "length (pad_block MemBlockSize data) = ?n * MemBlockSize"
    by (simp add: pad_block_length)
  have s: "uadd lba ?n = lba + ?n"
    using assms by (intro uadd_small) (auto simp: memdev_ok_def W32_def)
  have "memdev_write_loop md lba (pad_block MemBlockSize data) 0 ?n =
    md\<lparr>Storage := overwrite lba (to_blocks MemBlockSize data) (Storage md)\<rparr>"
    using memdev_write_loop_spec [of md "pad_block MemBlockSize data" ?n 0 ?n lba] assms len
    by (simp add: memdev_ok_def list_all_iff to_blocks_def length_chunks_dvd [OF MemBlockSize_pos len])
  then show ?thesis
    using assms(3) n s len by (simp add: memdev_WriteBlocks_def)
qed

interpretation md: block_device MemDev Storage memdev_ok
proof
  fix d :: memdev and data :: bytes and lba n :: nat and d' e p
  assume a: "memdev_ok d" "data \<noteq> []"
    "lba + nblocks (BlockSize MemDev) (length data) \<le> length (Storage d)"
  note w = memdev_write_all [OF a(1,2) a(3) [simplified]]
  have ok: "memdev_ok (d\<lparr>Storage := overwrite lba (to_blocks MemBlockSize data) (Storage d)\<rparr>)"
    using a to_blocks_length [OF MemBlockSize_pos]
    by (auto simp: memdev_ok_def list_all_iff length_to_blocks dest: set_overwrite)
  show "WriteBlocks MemDev d lba data \<noteq> (Panic p, d')" by (simp add: w)
  { assume "WriteBlocks MemDev d lba data = (Ok n, d')"
    with w ok show "n = nblocks (BlockSize MemDev) (length data) \<and> memdev_ok d' \<and>
      Storage d' = overwrite lba (to_blocks (BlockSize MemDev) data) (Storage d)" by auto }
  assume "WriteBlocks MemDev d lba data = (Err e, d')"
  with w show "memdev_ok d' \<and> (\<exists>k < nblocks (BlockSize MemDev) (length data).
      Storage d' = overwrite lba (take k (to_blocks (BlockSize MemDev) data)) (Storage d))" by simp
qed (auto simp: memdev_read_one memdev_ok_blocks MemBlockSize_def W32_def)

lemma memdev_reliable: "reliable MemDev Storage memdev_ok"
  using memdev_write_all by (simp add: reliable_def)

end
