(* ===== verification/Entry.thy ===== *)
theory Entry
  imports Sha256 Device
begin

text \<open>
  The update records of a journal (\<open>slots/journal.go\<close>): the struct \<open>entry\<close>, \<open>marshalEntry\<close> and
  \<open>unmarshalEntry\<close>, and the \<open>blockReader\<close> through which records are read from a device.

  \<open>unmarshalEntry\<close> works on any \<open>io.Reader\<close>; what it relies on is the locale \<open>byte_reader\<close>. It is
  interpreted on the \<open>bytes.Reader\<close> of the standard library, and \<open>br_reader\<close> shows that a
  \<open>blockReader\<close> on any device meeting \<open>block_device\<close> provides it as well.
\<close>

section \<open>Records\<close>

record entry =
  Magic :: bytes
  Revision :: "32 word"
  DataLen :: "64 word"
  DataSHA256 :: bytes
  Data :: bytes

definition magic0 :: bytes where
  "magic0 = string_bytes ''TFJ0''"

definition entryHeaderSize :: nat where
  "entryHeaderSize = 4 + 4 + 8 + 32"

definition minEntries :: nat where
  "minEntries = 3"

definition entry_Size :: "entry \<Rightarrow> nat" where
  "entry_Size e = entryHeaderSize + length (Data e)"

text \<open>The zero value of the struct.\<close>

definition zero_entry :: entry where
  "zero_entry = \<lparr>Magic = replicate 4 0, Revision = 0, DataLen = 0, DataSHA256 = replicate 32 0, Data = []\<rparr>"

text \<open>The bytes of a record: the fields in order, integers in big-endian order.\<close>

definition entry_bytes :: "entry \<Rightarrow> bytes" where
  "entry_bytes e = Magic e @ be_put 4 (Revision e) @ be_put 8 (DataLen e) @ DataSHA256 e @ Data e"

definition marshalEntry :: "entry \<Rightarrow> bytes res" where
  "marshalEntry e =
     (if Magic e \<noteq> magic0 then Err (Errorf ''invalid header magic %v'' [])
      else if Sum256 (Data e) \<noteq> DataSHA256 e
      then Err (Errorf ''incorrect data SHA256 (%x), header claims (%x)'' [])
      else Ok (entry_bytes e))"

text \<open>
  One \<open>binary.Read\<close> or \<open>io.ReadFull\<close> of \<open>unmarshalEntry\<close>: \<open>readf r n\<close> fills a buffer of \<open>n\<close>
  bytes from the reader \<open>r\<close>; a failure is wrapped, a panic passes.
\<close>

definition read_or :: "('r \<Rightarrow> nat \<Rightarrow> bytes res \<times> 'r) \<Rightarrow> 'r \<Rightarrow> nat \<Rightarrow> string \<Rightarrow>
    (bytes \<Rightarrow> 'r \<Rightarrow> 'a res \<times> 'r) \<Rightarrow> 'a res \<times> 'r" where
  "read_or readf r n msg k =
     (case readf r n of
        (Ok b, r') \<Rightarrow> k b r'
      | (Err e, r') \<Rightarrow> (Err (Errorf msg [e]), r')
      | (Panic p, r') \<Rightarrow> (Panic p, r'))"

text \<open>
  \<open>make([]byte, e.DataLen)\<close> panics for a length that is no Go \<open>int\<close>, whatever the reader could
  deliver.
\<close>

definition unmarshalEntry :: "('r \<Rightarrow> nat \<Rightarrow> bytes res \<times> 'r) \<Rightarrow> 'r \<Rightarrow> entry res \<times> 'r" where
  "unmarshalEntry readf r =
     read_or readf r 4 ''failed to read magic: %v'' (\<lambda>magic r.
     if magic \<noteq> magic0 then (Err (Errorf ''invalid header magic %v'' []), r) else
     read_or readf r 4 ''failed to read revision: %v'' (\<lambda>rev r.
     if (be_get rev :: 32 word) = 0 then (Err (Errorf ''zero is not a valid revision'' []), r) else
     read_or readf r 8 ''failed to read data length: %v'' (\<lambda>len r.
     read_or readf r 32 ''failed to read data SHA256: %v'' (\<lambda>sha r.
     let n = unat (be_get len :: 64 word) in
     if W32 div 2 \<le> n then (Panic MakeLenOutOfRange, r) else
     read_or readf r n ''failed to read data; %v'' (\<lambda>data r.
     if Sum256 data \<noteq> sha
     then (Err (Errorf ''incorrect data SHA256 (%x), header claims (%x)'' []), r)
     else (Ok \<lparr>Magic = magic, Revision = be_get rev, DataLen = be_get len,
                DataSHA256 = sha, Data = data\<rparr>, r))))))"

text \<open>A record that \<open>Update\<close> can have made: what the journal calls a valid entry.\<close>

definition wf_entry :: "entry \<Rightarrow> bool" where
  "wf_entry e \<longleftrightarrow> Magic e = magic0 \<and> Revision e \<noteq> 0 \<and> length (Data e) < W32 div 2 \<and>
     DataLen e = of_nat (length (Data e)) \<and> DataSHA256 e = Sum256 (Data e)"

lemma length_magic0 [simp]: "length magic0 = 4"
  by (simp add: magic0_def)

lemma length_entry_bytes: "wf_entry e \<Longrightarrow> length (entry_bytes e) = entry_Size e"
  by (simp add: wf_entry_def entry_bytes_def entry_Size_def entryHeaderSize_def)

lemma unat_of_nat_64: "n < W32 div 2 \<Longrightarrow> unat (of_nat n :: 64 word) = n"
  by (simp add: unat_of_nat take_bit_nat_eq_self W32_def)

lemma wf_entry_DataLen: "wf_entry e \<Longrightarrow> unat (DataLen e) = length (Data e)"
  by (simp add: wf_entry_def unat_of_nat_64)

lemma marshal_wf: "wf_entry e \<Longrightarrow> marshalEntry e = Ok (entry_bytes e)"
  by (simp add: wf_entry_def marshalEntry_def)


section \<open>Readers\<close>

text \<open>
  A reader that delivers the bytes \<open>src\<close>: \<open>at r P\<close> says that \<open>r\<close> has delivered the first
  \<open>P\<close> of them.
\<close>

locale byte_reader =
  fixes readf :: "'r \<Rightarrow> nat \<Rightarrow> bytes res \<times> 'r"
    and at :: "'r \<Rightarrow> nat \<Rightarrow> bool"
    and src :: bytes
  assumes read_full: "at r P \<Longrightarrow> P + n \<le> length src \<Longrightarrow>
    \<exists>r'. readf r n = (Ok (take n (drop P src)), r') \<and> at r' (P + n)"
begin

text \<open>One step of the parser, when the reader has enough bytes.\<close>

lemma read_or_step:
  assumes "at r P" "P + n = Q" "Q \<le> length src"
  obtains r' where "at r' Q"
    and "\<And>msg (k :: bytes \<Rightarrow> 'r \<Rightarrow> entry res \<times> 'r).
      read_or readf r n msg k = k (take n (drop P src)) r'"
  using read_full [of r P n] assms by (auto simp: read_or_def)

lemma unmarshal_bad_magic:
  assumes "at r P" "P + 4 \<le> length src" "take 4 (drop P src) \<noteq> magic0"
  shows "\<exists>e r'. unmarshalEntry readf r = (Err e, r')"
  using assms(3) by (rule_tac read_or_step [OF assms(1) refl assms(2)]) (simp add: unmarshalEntry_def)

text \<open>The whole header is there: what happens depends on the data that follows it.\<close>

lemma unmarshal_header:
  assumes "at r P" "P + 48 \<le> length src"
    and "drop P src = magic0 @ be_put 4 rv @ be_put 8 len @ sha @ rest" "length sha = 32"
    and "rv \<noteq> (0 :: 32 word)"
  shows "\<exists>r'. at r' (P + 48) \<and> unmarshalEntry readf r =
    (if W32 div 2 \<le> unat (len :: 64 word) then (Panic MakeLenOutOfRange, r') else
     read_or readf r' (unat len) ''failed to read data; %v'' (\<lambda>data r.
     if Sum256 data \<noteq> sha
     then (Err (Errorf ''incorrect data SHA256 (%x), header claims (%x)'' []), r)
     else (Ok \<lparr>Magic = magic0, Revision = rv, DataLen = len, DataSHA256 = sha, Data = data\<rparr>, r)))"
proof -
  have "drop (P + k) src = drop k (magic0 @ be_put 4 rv @ be_put 8 len @ sha @ rest)" for k
    using arg_cong [OF assms(3), of "drop k"] by (simp add: add.commute)
  from this [of 4] this [of 8] this [of 16]
  have d: "drop (P + 4) src = be_put 4 rv @ be_put 8 len @ sha @ rest"
    "drop (P + 8) src = be_put 8 len @ sha @ rest" "drop (P + 16) src = sha @ rest"
    by (simp_all del: be_put.simps)
  have b: "P + 4 \<le> length src" "P + 8 \<le> length src" "P + 16 \<le> length src"
    using assms(2) by simp_all
  obtain r1 where r1: "at r1 (P + 4)" and s1: "\<And>msg (k :: _ \<Rightarrow> _ \<Rightarrow> entry res \<times> _). read_or readf r 4 msg k = k (take 4 (drop P src)) r1"
    using read_or_step [OF assms(1) refl b(1)] by blast
  obtain r2 where r2: "at r2 (P + 8)" and s2: "\<And>msg (k :: _ \<Rightarrow> _ \<Rightarrow> entry res \<times> _). read_or readf r1 4 msg k = k (take 4 (drop (P + 4) src)) r2"
    using read_or_step [OF r1 _ b(2), of 4] by auto
  obtain r3 where r3: "at r3 (P + 16)" and s3: "\<And>msg (k :: _ \<Rightarrow> _ \<Rightarrow> entry res \<times> _). read_or readf r2 8 msg k = k (take 8 (drop (P + 8) src)) r3"
    using read_or_step [OF r2 _ b(3), of 8] by auto
  obtain r4 where r4: "at r4 (P + 48)" and s4: "\<And>msg (k :: _ \<Rightarrow> _ \<Rightarrow> entry res \<times> _). read_or readf r3 32 msg k = k (take 32 (drop (P + 16) src)) r4"
    using read_or_step [OF r3 _ assms(2), of 32] by auto
  show ?thesis
    using r4 assms(3,4,5) by (intro exI [of _ r4]) (simp add: unmarshalEntry_def s1 s2 s3 s4 d Let_def cong: if_cong)
qed

text \<open>A record that is there in full is read back, and the reader stands right after it.\<close>

lemma unmarshal_ok:
  assumes "at r P" "wf_entry e" "drop P src = entry_bytes e @ rest"
  shows "\<exists>r'. unmarshalEntry readf r = (Ok e, r') \<and> at r' (P + entry_Size e)"
proof -
  have len: "P + entry_Size e + length rest = length src"
    using assms(1) length_entry_bytes [OF assms(2)] arg_cong [OF assms(3), of length]
    by (cases "P \<le> length src") (auto simp: entry_Size_def entryHeaderSize_def)
  have sz: "entry_Size e = 48 + length (Data e)" by (simp add: entry_Size_def entryHeaderSize_def)
  have shape: "drop P src = magic0 @ be_put 4 (Revision e) @ be_put 8 (DataLen e) @ DataSHA256 e @ Data e @ rest"
    using assms(2,3) by (simp add: entry_bytes_def wf_entry_def)
  have sha: "length (DataSHA256 e) = 32" using assms(2) by (simp add: wf_entry_def)
  from unmarshal_header [OF assms(1) _ shape sha] len sz assms(2) obtain r1 where r1: "at r1 (P + 48)"
    and u: "unmarshalEntry readf r = read_or readf r1 (length (Data e)) ''failed to read data; %v''
      (\<lambda>data r. if Sum256 data \<noteq> DataSHA256 e
       then (Err (Errorf ''incorrect data SHA256 (%x), header claims (%x)'' []), r)
       else (Ok \<lparr>Magic = magic0, Revision = Revision e, DataLen = DataLen e,
         DataSHA256 = DataSHA256 e, Data = data\<rparr>, r))"
    by (auto simp: wf_entry_def unat_of_nat_64)
  have "drop (P + 48) src = Data e @ rest"
    using arg_cong [OF shape, of "drop 48"] sha by (simp add: add.commute)
  with read_full [OF r1, of "length (Data e)"] len sz obtain r2 where
    "readf r1 (length (Data e)) = (Ok (Data e), r2)" "at r2 (P + 48 + length (Data e))"
    by auto
  moreover have "\<lparr>Magic = magic0, Revision = Revision e, DataLen = DataLen e,
      DataSHA256 = DataSHA256 e, Data = Data e\<rparr> = e" and "Sum256 (Data e) = DataSHA256 e"
    using assms(2) by (simp_all add: wf_entry_def)
  ultimately show ?thesis by (simp add: u read_or_def sz ac_simps)
qed

end

text \<open>\<open>io.ReadFull\<close> on a \<open>bytes.Reader\<close>; the reader is what is left of its string.\<close>

definition bytes_ReadFull :: "bytes \<Rightarrow> nat \<Rightarrow> bytes res \<times> bytes" where
  "bytes_ReadFull s n =
     (if n \<le> length s then (Ok (take n s), drop n s)
      else if s = [] then (Err (Sentinel ''EOF''), []) else (Err (Sentinel ''unexpected EOF''), []))"

interpretation bytes_reader: byte_reader bytes_ReadFull "\<lambda>s P. P \<le> length src \<and> s = drop P src" src
  for src
  by unfold_locales (auto simp: bytes_ReadFull_def add.commute)

text \<open>What \<open>unmarshalEntry\<close> accepts is a record: the bytes are those of \<open>marshalEntry\<close>.\<close>

lemma read_bytes_step:
  "read_or bytes_ReadFull s n msg k = (Ok x, r) \<Longrightarrow> n \<le> length s \<and> k (take n s) (drop n s) = (Ok x, r)"
  by (auto simp: read_or_def bytes_ReadFull_def split: if_splits)

lemma unmarshal_head:
  assumes "unmarshalEntry bytes_ReadFull s = (Ok e, rest)"
  shows "48 \<le> length s" "take 4 s = magic0" "(be_get (take 4 (drop 4 s)) :: 32 word) \<noteq> 0"
  using assms by (auto simp: unmarshalEntry_def read_or_def bytes_ReadFull_def Let_def split: if_splits)

lemma unmarshal_canonical:
  assumes "unmarshalEntry bytes_ReadFull s = (Ok e, rest)"
  shows "wf_entry e \<and> s = entry_bytes e @ rest"
proof -
  note H = unmarshal_head [OF assms]
  define rv :: "32 word" where "rv = be_get (take 4 (drop 4 s))"
  define len :: "64 word" where "len = be_get (take 8 (drop 8 s))"
  define sha where "sha = take 32 (drop 16 s)"
  have put: "be_put 4 rv = take 4 (drop 4 s)" "be_put 8 len = take 8 (drop 8 s)"
    unfolding rv_def len_def using H(1) by (intro be_put_get; simp)+
  have split: "drop k s = take n (drop k s) @ drop (k + n) s" for k n
    by (metis append_take_drop_id add.commute drop_drop)
  have shape: "s = magic0 @ be_put 4 rv @ be_put 8 len @ sha @ drop 48 s"
    using split [of 0 4] split [of 4 4] split [of 8 8] split [of 16 32] H(2) by (simp add: put sha_def)
  have "rv \<noteq> 0" "length sha = 32" using H by (simp_all add: rv_def sha_def)
  with bytes_reader.unmarshal_header [where src = s and r = s and P = 0 and rv = rv and len = len and sha = sha and rest = "drop 48 s"] H(1) shape
  have u: "unmarshalEntry bytes_ReadFull s =
    (if W32 div 2 \<le> unat len then (Panic MakeLenOutOfRange, drop 48 s) else
     read_or bytes_ReadFull (drop 48 s) (unat len) ''failed to read data; %v'' (\<lambda>data r.
     if Sum256 data \<noteq> sha
     then (Err (Errorf ''incorrect data SHA256 (%x), header claims (%x)'' []), r)
     else (Ok \<lparr>Magic = magic0, Revision = rv, DataLen = len, DataSHA256 = sha, Data = data\<rparr>, r)))" by auto
  define data where "data = take (unat len) (drop 48 s)"
  have lt: "\<not> W32 div 2 \<le> unat len" using assms u by (auto split: if_splits)
  from read_bytes_step [OF assms [unfolded u if_not_P [OF lt]]]
  have d: "unat len \<le> length (drop 48 s)" "Sum256 data = sha" "rest = drop (unat len) (drop 48 s)"
    and e: "e = \<lparr>Magic = magic0, Revision = rv, DataLen = len, DataSHA256 = sha, Data = data\<rparr>"
    by (auto simp: data_def split: if_splits)
  have "s = entry_bytes e @ rest"
    using shape by (simp add: e entry_bytes_def data_def d(3) del: drop_drop)
  moreover have "wf_entry e" using \<open>rv \<noteq> 0\<close> lt d(1,2) by (simp add: wf_entry_def e data_def not_le)
  ultimately show ?thesis by simp
qed


section \<open>What is no record\<close>

text \<open>
  The first \<open>n\<close> bytes of \<open>s\<close> decide that no record starts there: they do not begin with the
  magic, or they hold a header whose data does not have the digest the header claims.
\<close>

definition bad_record :: "nat \<Rightarrow> bytes \<Rightarrow> bool" where
  "bad_record n s \<longleftrightarrow> n \<le> length s \<and> (4 \<le> n \<and> take 4 s \<noteq> magic0 \<or>
     (\<exists>rv len sha data. take n s = magic0 @ be_put 4 rv @ be_put 8 (len :: 64 word) @ sha @ data \<and>
        length sha = 32 \<and> unat len = length data \<and> length data < W32 div 2 \<and>
        rv \<noteq> (0 :: 32 word) \<and> Sum256 data \<noteq> sha))"

lemma bad_record_cong:
  assumes "bad_record n s" and "take n s' = take n s" and "n \<le> length s'"
  shows "bad_record n s'"
proof -
  have "take 4 s' = take 4 s" if "4 \<le> n"
    using assms(2) that by (metis min.absorb1 take_take)
  with assms show ?thesis unfolding bad_record_def by (metis (no_types))
qed

lemma bad_record_magic: "4 \<le> length s \<Longrightarrow> take 4 s \<noteq> magic0 \<Longrightarrow> bad_record 4 s"
  by (simp add: bad_record_def)

context byte_reader
begin

lemma unmarshal_bad:
  assumes "at r P" "P \<le> length src" "bad_record n (drop P src)"
  shows "\<exists>e r'. unmarshalEntry readf r = (Err e, r')"
proof (cases "4 \<le> n \<and> take 4 (drop P src) \<noteq> magic0")
  case True
  with assms show ?thesis by (intro unmarshal_bad_magic) (auto simp: bad_record_def)
next
  case False
  with assms(3) obtain rv len sha data where h: "n \<le> length (drop P src)"
    "take n (drop P src) = magic0 @ be_put 4 rv @ be_put 8 len @ sha @ data"
    "length sha = 32" "unat (len :: 64 word) = length data" "length data < W32 div 2"
    "rv \<noteq> (0 :: 32 word)" "Sum256 data \<noteq> sha"
    unfolding bad_record_def by blast
  let ?rest = "drop n (drop P src)"
  have shape: "drop P src = magic0 @ be_put 4 rv @ be_put 8 len @ sha @ data @ ?rest"
    using h(2) append_take_drop_id [of n "drop P src"] by simp
  have n: "n = 48 + length data"
    using h(1,3) arg_cong [OF h(2), of length] by simp
  have len: "P + 48 + length data \<le> length src"
    using h(1) n assms(2) by simp
  from unmarshal_header [OF assms(1) _ shape h(3,6)] len h(4,5) obtain r1 where r1: "at r1 (P + 48)"
    and u: "unmarshalEntry readf r = read_or readf r1 (length data) ''failed to read data; %v''
      (\<lambda>d r. if Sum256 d \<noteq> sha
       then (Err (Errorf ''incorrect data SHA256 (%x), header claims (%x)'' []), r)
       else (Ok \<lparr>Magic = magic0, Revision = rv, DataLen = len, DataSHA256 = sha, Data = d\<rparr>, r))"
    by auto
  have "drop (P + 48) src = data @ ?rest"
    using arg_cong [OF shape, of "drop 48"] h(3) by (simp add: add.commute)
  with read_full [OF r1, of "length data"] len obtain r2 where "readf r1 (length data) = (Ok data, r2)"
    by auto
  with h(7) show ?thesis by (simp add: u read_or_def)
qed

end


section \<open>Reading from a device\<close>

record blockReader =
  br_buf :: bytes
  br_pos :: nat

definition newBlockReader :: "'d BlockReaderWriter \<Rightarrow> nat \<Rightarrow> blockReader" where
  "newBlockReader dev lba =
     \<lparr>br_buf = replicate (BlockSize dev) 0, br_pos = umul lba (BlockSize dev)\<rparr>"

text \<open>\<open>Read\<close> into a buffer of \<open>n\<close> bytes: the bytes it delivers, and the reader afterwards.\<close>

definition br_Read :: "'d BlockReaderWriter \<Rightarrow> 'd \<Rightarrow> blockReader \<Rightarrow> nat \<Rightarrow> bytes res \<times> blockReader" where
  "br_Read dev d br n =
     (let bs = BlockSize dev in
      if bs = 0 then (Panic DivideByZero, br)
      else
        case (if br_pos br mod bs = 0 then ReadBlocks dev d (br_pos br div bs) (br_buf br)
              else Ok (br_buf br)) of
          Err e \<Rightarrow> (Err e, br)
        | Panic p \<Rightarrow> (Panic p, br)
        | Ok buf \<Rightarrow>
            let b = take n (drop (br_pos br mod bs) buf)
            in (Ok b, \<lparr>br_buf = buf, br_pos = uadd (br_pos br) (length b)\<rparr>))"

text \<open>
  \<open>io.ReadFull\<close> on a \<open>blockReader\<close>. A \<open>Read\<close> that delivers nothing would be repeated for ever;
  \<open>br_reader\<close> below shows that it does not happen on a device meeting its contract.
\<close>

function br_ReadFull :: "'d BlockReaderWriter \<Rightarrow> 'd \<Rightarrow> blockReader \<Rightarrow> nat \<Rightarrow> bytes res \<times> blockReader" where
  "br_ReadFull dev d br n =
     (if n = 0 then (Ok [], br)
      else case br_Read dev d br n of
        (Ok b, br') \<Rightarrow>
          if b = [] then (Panic NoReturn, br')
          else (case br_ReadFull dev d br' (n - length b) of
                  (Ok b', br'') \<Rightarrow> (Ok (b @ b'), br'')
                | r \<Rightarrow> r)
      | r \<Rightarrow> r)"
  by pat_completeness auto
termination
  by (relation "measure (\<lambda>(dev, d, br, n). n)") auto

declare br_ReadFull.simps [simp del]

text \<open>
  The reader has delivered \<open>P\<close> bytes of the device (counted from block 0); \<open>E\<close> is the block at
  which the window read through it ends. Its position is a \<open>uint\<close>, so it may have wrapped to zero
  at the very end of a window of \<open>2 ^ 32\<close> bytes.
\<close>

definition br_at :: "'d BlockReaderWriter \<Rightarrow> bytes list \<Rightarrow> nat \<Rightarrow> blockReader \<Rightarrow> nat \<Rightarrow> bool" where
  "br_at dev bl E br P \<longleftrightarrow>
     P \<le> E * BlockSize dev \<and> br_pos br = P mod W32 \<and> length (br_buf br) = BlockSize dev \<and>
     (P mod BlockSize dev \<noteq> 0 \<longrightarrow> br_buf br = bl ! (P div BlockSize dev))"

context block_device
begin

lemma br_Read_step:
  assumes "ok d" "E \<le> length (blocks d)" "E * BlockSize dev \<le> W32"
    and "br_at dev (blocks d) E br P" "P < E * BlockSize dev"
    and "m = min n (BlockSize dev - P mod BlockSize dev)"
  shows "\<exists>br'. br_Read dev d br n = (Ok (take m (drop P (concat (take E (blocks d))))), br') \<and>
    br_at dev (blocks d) E br' (P + m)"
proof -
  define bs src where "bs = BlockSize dev" and "src = concat (take E (blocks d))"
  define q r where "q = P div bs" and "r = P mod bs"
  have P: "P = q * bs + r" and r: "r < bs" using bs_pos by (auto simp: q_def r_def bs_def)
  have PW: "br_pos br = P" using assms(3-5) by (simp add: br_at_def)
  have q: "q < E" using assms(5) by (simp add: q_def bs_def less_mult_imp_div_less)
  let ?blk = "blocks d ! q"
  have blen: "length ?blk = bs" using block_length [OF assms(1)] q assms(2) by (simp add: bs_def)
  have all: "\<forall>b \<in> set (take E (blocks d)). length b = bs"
    using block_length [OF assms(1)] by (metis bs_def in_set_takeD)
  have rd: "ReadBlocks dev d q (br_buf br) = Ok ?blk"
    using assms(4) read_block [OF assms(1), of q "br_buf br"] q assms(2) by (simp add: br_at_def)
  have bf: "br_buf br = ?blk" if "r \<noteq> 0"
    using assms(4) that by (simp add: br_at_def r_def q_def bs_def)
  have "?blk = take bs (drop (q * bs) src)"
    using nth_block [OF all, of q] q assms(2) by (simp add: src_def)
  then have "drop r ?blk = take (bs - r) (drop P src)"
    by (simp add: drop_take P add.commute)
  then have data: "take n (drop r ?blk) = take m (drop P src)"
    using assms(6) by (simp add: r_def bs_def)
  have len: "length (take n (drop r ?blk)) = m"
    using blen assms(6) by (simp add: r_def bs_def min.commute)
  have m: "m \<le> bs - r" using assms(6) by (simp add: r_def bs_def)
  have "Suc q * bs \<le> E * bs" using q by (intro mult_le_mono1) simp
  then have end': "P + m \<le> E * bs" using P r m by simp
  have "(P + m) div bs = q" if "(P + m) mod bs \<noteq> 0"
  proof -
    have "r + m \<noteq> bs"
    proof
      assume "r + m = bs"
      then have "P + m = Suc q * bs" using P by simp
      with that show False by simp
    qed
    with m r have "r + m < bs" by simp
    then show ?thesis using P by (intro div_nat_eqI) auto
  qed
  with end' blen have at': "br_at dev (blocks d) E \<lparr>br_buf = ?blk, br_pos = uadd P m\<rparr> (P + m)"
    unfolding br_at_def bs_def [symmetric] uadd_def by simp
  have "br_Read dev d br n = (Ok (take m (drop P src)), \<lparr>br_buf = ?blk, br_pos = uadd P m\<rparr>)"
    unfolding br_Read_def Let_def bs_def [symmetric] PW r_def [symmetric] q_def [symmetric]
    using r rd bf data len by (cases "r = 0") simp_all
  with at' show ?thesis unfolding src_def by blast
qed

lemma br_reader:
  assumes "ok d" "E \<le> length (blocks d)" "E * BlockSize dev \<le> W32"
  shows "byte_reader (br_ReadFull dev d) (br_at dev (blocks d) E) (concat (take E (blocks d)))"
proof
  define src where "src = concat (take E (blocks d))"
  have all: "\<forall>b \<in> set (take E (blocks d)). length b = BlockSize dev"
    using block_length [OF assms(1)] by (meson in_set_takeD)
  have len: "length src = E * BlockSize dev"
    using length_concat_blocks [OF all] assms(2) by (simp add: src_def)
  fix r P n assume "br_at dev (blocks d) E r P" and "P + n \<le> length (concat (take E (blocks d)))"
  then show "\<exists>r'. br_ReadFull dev d r n = (Ok (take n (drop P (concat (take E (blocks d))))), r') \<and>
      br_at dev (blocks d) E r' (P + n)"
    unfolding src_def [symmetric]
  proof (induction n arbitrary: r P rule: less_induct)
    case (less n)
    show ?case
    proof (cases "n = 0")
      case True
      with less.prems show ?thesis by (simp add: br_ReadFull.simps)
    next
      case False
      define m where "m = min n (BlockSize dev - P mod BlockSize dev)"
      have m: "0 < m" "m \<le> n" using False bs_pos by (auto simp: m_def)
      have lt: "P < E * BlockSize dev" using less.prems(2) False len by simp
      from br_Read_step [OF assms less.prems(1) lt m_def] obtain r1
        where r1: "br_Read dev d r n = (Ok (take m (drop P src)), r1)"
          "br_at dev (blocks d) E r1 (P + m)" unfolding src_def by blast
      have l1: "length (take m (drop P src)) = m" using m less.prems(2) by simp
      with m have ne: "take m (drop P src) \<noteq> []" by fastforce
      have "n - m < n" "P + m + (n - m) \<le> length src" using m less.prems(2) by auto
      from less.IH [OF this(1) r1(2) this(2)] m(2) obtain r2 where
        r2: "br_ReadFull dev d r1 (n - m) = (Ok (take (n - m) (drop (P + m) src)), r2)"
        "br_at dev (blocks d) E r2 (P + n)" by (metis add.assoc le_add_diff_inverse)
      have "take m (drop P src) @ take (n - m) (drop (P + m) src) = take n (drop P src)"
        using m(2) by (metis add.commute drop_drop le_add_diff_inverse take_add)
      then have "br_ReadFull dev d r n = (Ok (take n (drop P src)), r2)"
        using False r1(1) r2(1) ne l1 by (subst br_ReadFull.simps) simp
      with r2(2) show ?thesis by blast
    qed
  qed
qed

lemma newBlockReader_at:
  assumes "lba \<le> E" "E * BlockSize dev \<le> W32"
  shows "br_at dev (blocks d) E (newBlockReader dev lba) (lba * BlockSize dev)"
  using assms by (simp add: br_at_def newBlockReader_def umul_def)

end


section \<open>Properties\<close>

text \<open>C25. \<open>unmarshalEntry\<close> reads back what \<open>marshalEntry\<close> wrote for a valid record and leaves what follows.\<close>

theorem entry_roundtrip:
  assumes "wf_entry e" "marshalEntry e = Ok b"
  shows "unmarshalEntry bytes_ReadFull (b @ rest) = (Ok e, rest)"
proof -
  have b: "b = entry_bytes e" using assms marshal_wf by simp
  have "length b = entry_Size e" using assms(1) length_entry_bytes by (simp add: b)
  then show ?thesis
    using bytes_reader.unmarshal_ok [where src = "b @ rest" and P = 0 and r = "b @ rest" and e = e and rest = rest] assms(1) by (auto simp: b)
qed

definition demo_entry :: entry where
  "demo_entry = \<lparr>Magic = magic0, Revision = 1, DataLen = 2, DataSHA256 = Sum256 [7, 9], Data = [7, 9]\<rparr>"

lemma demo_entry_wf: "wf_entry demo_entry"
  by (simp add: wf_entry_def demo_entry_def W32_def)

theorem entry_roundtrip_witness:
  "wf_entry demo_entry \<and> marshalEntry demo_entry = Ok (entry_bytes demo_entry) \<and>
    unmarshalEntry bytes_ReadFull (entry_bytes demo_entry @ [0, 0]) = (Ok demo_entry, [0, 0])"
  using entry_roundtrip [OF demo_entry_wf marshal_wf [OF demo_entry_wf], of "[0, 0]"] demo_entry_wf
    marshal_wf [OF demo_entry_wf] by simp

text \<open>
  C26. Only the bytes that \<open>marshalEntry\<close> writes for a valid record are accepted: what \<open>unmarshalEntry\<close>
  returns is valid (magic, nonzero revision, length and digest of its data), and the bytes consumed
  are its encoding.
\<close>

theorem entry_canonical:
  assumes "unmarshalEntry bytes_ReadFull s = (Ok e, rest)"
  shows "wf_entry e \<and> (\<exists>b. marshalEntry e = Ok b \<and> s = b @ rest)"
  using unmarshal_canonical [OF assms] marshal_wf by blast

theorem entry_canonical_witness:
  "unmarshalEntry bytes_ReadFull (entry_bytes demo_entry) = (Ok demo_entry, []) \<and> wf_entry demo_entry"
proof -
  have "unmarshalEntry bytes_ReadFull (entry_bytes demo_entry @ []) = (Ok demo_entry, [])"
    using bytes_reader.unmarshal_ok [where src = "entry_bytes demo_entry" and P = 0 and r = "entry_bytes demo_entry"
        and e = demo_entry and rest = "[]"]
      demo_entry_wf length_entry_bytes [OF demo_entry_wf] by auto
  then show ?thesis using entry_canonical [of "entry_bytes demo_entry" demo_entry "[]"] by simp
qed

end
