(* ===== verification/Journal.thy ===== *)
theory Journal
  imports Entry
begin

text \<open>
  The journal of \<open>slots/journal.go\<close>: a ring of update records in a range of blocks of a device.
  \<open>OpenJournal\<close> scans the range for the current record, \<open>Update\<close> writes the next one.

  The definitions follow the code statement by statement, with the device and its state as
  arguments. The invariant of the blocks of a journal is in \<open>JournalRecovery\<close>; that the operations keep it, and that
  a journal is a register that survives failed writes and restarts, is in \<open>JournalSpec\<close>.
\<close>

section \<open>The operations\<close>

record journal =
  j_start :: nat
  j_length :: nat
  current :: entry
  nextBlock :: nat
  maxDataBytes :: nat

text \<open>
  The loop of \<open>init\<close>. It ends because an entry is only taken for a greater revision, and a step
  without one moves to the next block; the end of the journal is a \<open>uint\<close>, so the block address
  does not wrap on the way.
\<close>

function journal_scan :: "'d BlockReaderWriter \<Rightarrow> 'd \<Rightarrow> nat \<Rightarrow> nat \<Rightarrow> nat \<Rightarrow> entry \<Rightarrow> nat \<Rightarrow> (entry \<times> nat) res" where
  "journal_scan dev d start len lba lastEntry nextWriteLBA =
     (if lba < uadd start len then
        case unmarshalEntry (br_ReadFull dev d) (newBlockReader dev lba) of
          (Panic p, br) \<Rightarrow> Panic p
        | (Err err, br) \<Rightarrow>
            if 0 < Revision lastEntry then Ok (lastEntry, nextWriteLBA)
            else journal_scan dev d start len (uadd lba 1) lastEntry nextWriteLBA
        | (Ok e, br) \<Rightarrow>
            if Revision lastEntry < Revision e then
              let lba' = uadd (usub (br_pos br) 1 div BlockSize dev) 1
              in journal_scan dev d start len lba' e lba'
            else if Revision e < Revision lastEntry then Ok (lastEntry, lba)
            else Err (Errorf
              ''journal is corrupt - found two entries with the same revision (%d)'' [])
      else Ok (lastEntry, nextWriteLBA))"
  by pat_completeness auto
termination
proof (relation "measures [\<lambda>(dev, d, start, len, lba, e, n). 2 ^ 32 - unat (Revision e),
    \<lambda>(dev, d, start, len, lba, e, n). uadd start len - lba]", goal_cases)
  case (2 dev d start len lba lastEntry nextWriteLBA r br e lba')
  have "unat (Revision e) < 2 ^ 32" using unsigned_less [of "Revision e"] by simp
  with 2 show ?case by (simp add: word_less_nat_alt diff_less_mono2)
next
  case (3 dev d start len lba lastEntry nextWriteLBA)
  have "uadd lba 1 = lba + 1"
    using 3(1) uint_bounds(1) [of start len] by (intro uadd_small) linarith
  with 3(1) show ?case by simp
qed simp

declare journal_scan.simps [simp del]

definition journal_init :: "'d BlockReaderWriter \<Rightarrow> 'd \<Rightarrow> journal \<Rightarrow> journal res" where
  "journal_init dev d j =
     (case journal_scan dev d (j_start j) (j_length j) (j_start j) zero_entry (j_start j) of
        Ok (lastEntry, nextWriteLBA) \<Rightarrow>
          Ok (j\<lparr>nextBlock := (if uadd (j_start j) (j_length j) \<le> nextWriteLBA then j_start j
                              else nextWriteLBA),
                current := lastEntry\<rparr>)
      | Err e \<Rightarrow> Err e
      | Panic p \<Rightarrow> Panic p)"

definition OpenJournal :: "'d BlockReaderWriter \<Rightarrow> 'd \<Rightarrow> nat \<Rightarrow> nat \<Rightarrow> journal res" where
  "OpenJournal dev d start len =
     journal_init dev d
       \<lparr>j_start = start, j_length = len, current = zero_entry, nextBlock = 0,
        maxDataBytes = usub (umul len (BlockSize dev) div minEntries) entryHeaderSize\<rparr>"

definition journal_Data :: "journal \<Rightarrow> bytes \<times> 32 word" where
  "journal_Data j = (Data (current j), Revision (current j))"

text \<open>The record \<open>Update\<close> writes for \<open>data\<close>.\<close>

definition new_entry :: "32 word \<Rightarrow> bytes \<Rightarrow> entry" where
  "new_entry rv data =
     \<lparr>Magic = magic0, Revision = rv, DataLen = of_nat (length data),
      DataSHA256 = Sum256 data, Data = data\<rparr>"

text \<open>
  \<open>Update\<close> changes \<open>nextBlock\<close> before it writes; a failed write leaves that change in place.
\<close>

definition journal_Update :: "'d BlockReaderWriter \<Rightarrow> 'd \<Rightarrow> journal \<Rightarrow> bytes \<Rightarrow> unit res \<times> 'd \<times> journal" where
  "journal_Update dev d j data =
     (if to_int (maxDataBytes j) < int (length data)
      then (Err (Errorf ''attemping to write %d bytes, larger than the max permitted in this journal (%d bytes)'' []), d, j)
      else
        let e = new_entry (Revision (current j) + 1) data;
            cap = umul (usub (uadd (j_start j) (j_length j)) (nextBlock j)) (BlockSize dev);
            j' = (if cap < entry_Size e then j\<lparr>nextBlock := j_start j\<rparr> else j)
        in case marshalEntry e of
             Err err \<Rightarrow> (Err (Errorf ''failed to marshal entry: %v'' [err]), d, j')
           | Panic p \<Rightarrow> (Panic p, d, j')
           | Ok buf \<Rightarrow>
               (case WriteBlocks dev d (nextBlock j') buf of
                  (Err err, d') \<Rightarrow> (Err (Errorf ''failed to write blocks: %v'' [err]), d', j')
                | (Panic p, d') \<Rightarrow> (Panic p, d', j')
                | (Ok numBlocks, d') \<Rightarrow>
                    (Ok (), d', j'\<lparr>nextBlock := uadd (nextBlock j') numBlocks, current := e\<rparr>)))"

lemma new_entry_simps [simp]:
  "Revision (new_entry rv data) = rv" "Data (new_entry rv data) = data"
  "Magic (new_entry rv data) = magic0" "DataSHA256 (new_entry rv data) = Sum256 data"
  "DataLen (new_entry rv data) = of_nat (length data)"
  by (simp_all add: new_entry_def)

lemma new_entry_wf: "rv \<noteq> 0 \<Longrightarrow> length data < W32 div 2 \<Longrightarrow> wf_entry (new_entry rv data)"
  by (simp add: wf_entry_def)

lemma marshal_new_entry [simp]: "marshalEntry (new_entry rv data) = Ok (entry_bytes (new_entry rv data))"
  by (simp add: marshalEntry_def)

lemma entry_bytes_new: "entry_bytes (new_entry rv data) \<noteq> []"
  "length (entry_bytes (new_entry rv data)) = entry_Size (new_entry rv data)"
  by (simp_all add: entry_bytes_def entry_Size_def entryHeaderSize_def flip: length_greater_0_conv)

end
