(* ===== verification/JournalRecovery.thy ===== *)
theory JournalRecovery
  imports Journal
begin

text \<open>
  Why a journal survives interrupted writes. The blocks of a journal are described by the chain
  of records the scan runs through (\<open>region_inv\<close>); complete and interrupted updates keep the
  description, and the scan of \<open>init\<close> finds the last record of the chain.
\<close>

section \<open>Blocks of records\<close>

definition eblocks :: "nat \<Rightarrow> entry \<Rightarrow> bytes list" where
  "eblocks bs e = to_blocks bs (entry_bytes e)"

definition no_magic :: "bytes \<Rightarrow> bool" where
  "no_magic b \<longleftrightarrow> take 4 b \<noteq> magic0"

text \<open>
  A well-formed record whose data does not look like the start of a record where it continues
  in a further block. The scan goes block by block over the remains of an interrupted write, so it
  could not tell such data from a record.
\<close>

definition safe_entry :: "nat \<Rightarrow> entry \<Rightarrow> bool" where
  "safe_entry bs e \<longleftrightarrow> wf_entry e \<and> list_all no_magic (tl (eblocks bs e))"

definition chain_blocks :: "nat \<Rightarrow> entry list \<Rightarrow> bytes list" where
  "chain_blocks bs es = concat (map (eblocks bs) es)"

definition bad_at :: "bytes list \<Rightarrow> bool" where
  "bad_at bl \<longleftrightarrow> (\<exists>n. bad_record n (concat bl))"

lemma chain_blocks_simps [simp]:
  "chain_blocks bs [] = []" "chain_blocks bs (e # es) = eblocks bs e @ chain_blocks bs es"
  "chain_blocks bs (es @ es') = chain_blocks bs es @ chain_blocks bs es'"
  by (simp_all add: chain_blocks_def)

lemma length_eblocks:
  "0 < bs \<Longrightarrow> wf_entry e \<Longrightarrow> length (eblocks bs e) = nblocks bs (entry_Size e)"
  by (simp add: eblocks_def length_to_blocks length_entry_bytes)

lemma eblocks_block: "0 < bs \<Longrightarrow> b \<in> set (eblocks bs e) \<Longrightarrow> length b = bs"
  by (simp add: eblocks_def to_blocks_length)

lemma eblocks_pos: "0 < bs \<Longrightarrow> wf_entry e \<Longrightarrow> 0 < length (eblocks bs e)"
  by (simp add: length_eblocks nblocks_pos entry_Size_def entryHeaderSize_def)

lemma concat_eblocks: "\<exists>zs. concat (eblocks bs e) = entry_bytes e @ zs"
  using pad_block_prefix [of bs "entry_bytes e"] by (simp add: eblocks_def concat_to_blocks)

lemma bad_at_no_magic: "4 \<le> length b \<Longrightarrow> no_magic b \<Longrightarrow> bad_at (b # bl)"
  unfolding bad_at_def no_magic_def by (intro exI [of _ 4] bad_record_magic) auto

lemma bad_at_append: "bad_at bl \<Longrightarrow> bad_at (bl @ bl')"
proof -
  assume "bad_at bl"
  then obtain n where n: "bad_record n (concat bl)" by (auto simp: bad_at_def)
  then have "n \<le> length (concat bl)" by (simp add: bad_record_def)
  then have "bad_record n (concat (bl @ bl'))" by (intro bad_record_cong [OF n]) auto
  then show ?thesis by (auto simp: bad_at_def)
qed

lemma bad_at_prefix:
  assumes "bad_record n (concat bl)" "n \<le> length (concat (take i bl))" shows "bad_at (take i bl)"
proof -
  have "concat bl = concat (take i bl) @ concat (drop i bl)"
    by (metis append_take_drop_id concat_append)
  then have "take n (concat (take i bl)) = take n (concat bl)" using assms(2) by simp
  then show ?thesis using bad_record_cong [OF assms(1)] assms(2) by (auto simp: bad_at_def)
qed


section \<open>What a scan runs into after the current record\<close>

text \<open>Remains of earlier writes: no record, or records of a revision below \<open>R\<close>.\<close>

inductive old_blocks :: "nat \<Rightarrow> nat \<Rightarrow> bytes list \<Rightarrow> bool" for bs R where
  old_nil: "old_blocks bs R []"
| old_bad: "bad_at (b # bl) \<Longrightarrow> old_blocks bs R bl \<Longrightarrow> old_blocks bs R (b # bl)"
| old_ent: "safe_entry bs e \<Longrightarrow> unat (Revision e) < R \<Longrightarrow> old_blocks bs R bl \<Longrightarrow>
    old_blocks bs R (eblocks bs e @ bl)"

lemma old_mono: "old_blocks bs R bl \<Longrightarrow> R \<le> R' \<Longrightarrow> old_blocks bs R' bl"
  by (induction rule: old_blocks.induct) (auto intro: old_blocks.intros)

lemma old_raws:
  "\<forall>b \<in> set xs. 4 \<le> length b \<and> no_magic b \<Longrightarrow> old_blocks bs R bl \<Longrightarrow> old_blocks bs R (xs @ bl)"
  by (induction xs) (auto intro: old_blocks.old_bad bad_at_no_magic)

lemma safe_tail:
  assumes "4 \<le> bs" "safe_entry bs e" "0 < k"
  shows "\<forall>b \<in> set (drop k (eblocks bs e)). 4 \<le> length b \<and> no_magic b"
proof
  fix b assume b: "b \<in> set (drop k (eblocks bs e))"
  from assms(3) obtain k' where "k = Suc k'" by (cases k) auto
  with b have "b \<in> set (tl (eblocks bs e))" by (metis drop_Suc in_set_dropD)
  moreover have "b \<in> set (eblocks bs e)" using b by (rule in_set_dropD)
  ultimately show "4 \<le> length b \<and> no_magic b"
    using assms(1,2) eblocks_block [of bs b e] by (simp add: safe_entry_def list_all_iff)
qed

lemma old_drop:
  assumes "4 \<le> bs" "old_blocks bs R bl" shows "old_blocks bs R (drop k bl)"
  using assms(2)
proof (induction arbitrary: k rule: old_blocks.induct)
  case (old_bad b bl)
  then show ?case by (cases k) (auto intro: old_blocks.old_bad)
next
  case (old_ent e bl)
  consider "k = 0" | "0 < k" "k \<le> length (eblocks bs e)" | "length (eblocks bs e) < k" by linarith
  then show ?case
  proof cases
    case 2
    with old_ent safe_tail [OF assms(1) old_ent.hyps(1)] show ?thesis
      by (auto intro!: old_raws)
  qed (use old_ent in \<open>auto intro: old_blocks.old_ent\<close>)
qed (simp add: old_nil)

lemma old_chain:
  "\<forall>e \<in> set es. safe_entry bs e \<and> unat (Revision e) < R \<Longrightarrow> old_blocks bs R bl \<Longrightarrow>
    old_blocks bs R (chain_blocks bs es @ bl)"
  by (induction es) (auto intro: old_blocks.old_ent)

lemma old_pre:
  "\<forall>i < length pre. bad_at (drop i (pre @ bl)) \<Longrightarrow> old_blocks bs R bl \<Longrightarrow> old_blocks bs R (pre @ bl)"
proof (induction pre)
  case (Cons b pre)
  have "bad_at (b # pre @ bl)" using Cons.prems(1) by auto
  moreover have "\<forall>i < length pre. bad_at (drop i (pre @ bl))"
    using Cons.prems(1) by (metis Suc_less_eq append_Cons drop_Suc_Cons length_Cons)
  ultimately show ?case using Cons by (auto intro: old_blocks.old_bad)
qed simp


section \<open>The invariant of a journal's blocks\<close>

text \<open>
  \<open>es\<close> is the chain of records the scan reads, the last one the current record; the chain ends at
  block \<open>p\<close>. The blocks before the chain hold no record, and the bytes that decide so lie before
  \<open>p\<close>; the blocks after it hold remains of earlier writes. No record has more than \<open>M\<close> blocks.
\<close>

definition region_inv :: "nat \<Rightarrow> nat \<Rightarrow> bytes list \<Rightarrow> entry list \<Rightarrow> nat \<Rightarrow> bool" where
  "region_inv bs M bl es p \<longleftrightarrow>
     (\<forall>b \<in> set bl. length b = bs) \<and>
     (\<exists>pre rest. bl = pre @ chain_blocks bs es @ rest \<and>
        (\<forall>i < length pre. bad_at (drop i (pre @ chain_blocks bs es))) \<and>
        p = length pre + length (chain_blocks bs es) \<and>
        (if es = [] then rest = [] else old_blocks bs (unat (Revision (last es))) rest)) \<and>
     (\<forall>e \<in> set es. safe_entry bs e \<and> length (eblocks bs e) \<le> M) \<and>
     sorted_wrt (\<lambda>e e'. Revision e < Revision e') es"

lemma region_invE:
  assumes "region_inv bs M bl es p"
  obtains pre rest where "bl = pre @ chain_blocks bs es @ rest"
    "\<forall>i < length pre. bad_at (drop i (pre @ chain_blocks bs es))"
    "p = length pre + length (chain_blocks bs es)"
    "if es = [] then rest = [] else old_blocks bs (unat (Revision (last es))) rest"
    "\<forall>b \<in> set bl. length b = bs" "\<forall>e \<in> set es. safe_entry bs e \<and> length (eblocks bs e) \<le> M"
    "sorted_wrt (\<lambda>e e'. Revision e < Revision e') es"
  using assms unfolding region_inv_def by blast

lemma region_invI:
  assumes "bl = pre @ chain_blocks bs es @ rest"
    and "\<And>i. i < length pre \<Longrightarrow> bad_at (drop i (pre @ chain_blocks bs es))"
    and "p = length pre + length (chain_blocks bs es)"
    and "if es = [] then rest = [] else old_blocks bs (unat (Revision (last es))) rest"
    and "\<forall>b \<in> set bl. length b = bs" "\<forall>e \<in> set es. safe_entry bs e \<and> length (eblocks bs e) \<le> M"
    and "sorted_wrt (\<lambda>e e'. Revision e < Revision e') es"
  shows "region_inv bs M bl es p"
  using assms unfolding region_inv_def by blast

text \<open>Blocks in which no record starts: the state of a journal before its first update.\<close>

lemma region_inv_empty:
  assumes "4 \<le> bs" "\<forall>b \<in> set bl. length b = bs \<and> no_magic b"
  shows "region_inv bs M bl [] (length bl)"
proof -
  have "bad_at (drop i bl)" if "i < length bl" for i
    using assms that bad_at_no_magic [of "bl ! i" "drop (Suc i) bl"]
    by (simp add: Cons_nth_drop_Suc)
  with assms(2) show ?thesis by (auto simp: region_inv_def intro!: exI [of _ bl])
qed

lemma sorted_last:
  assumes "sorted_wrt (\<lambda>e e'. Revision e < Revision e') es" "e \<in> set es"
  shows "Revision e \<le> Revision (last es)"
proof -
  have "es = butlast es @ [last es]" using assms(2) by (cases es) auto
  with assms show ?thesis
    by (metis (no_types, lifting) Un_iff less_imp_le order_refl set_append set_ConsD
        sorted_wrt_append list.set_intros(1) empty_iff list.set(1))
qed

text \<open>Seen from a record of a greater revision, all blocks of a journal are remains.\<close>

lemma region_old:
  assumes "region_inv bs M bl es p" and "es \<noteq> [] \<Longrightarrow> unat (Revision (last es)) < R"
  shows "old_blocks bs R bl"
  using assms(1)
proof (rule region_invE)
  fix pre rest
  assume h: "bl = pre @ chain_blocks bs es @ rest"
    "\<forall>i < length pre. bad_at (drop i (pre @ chain_blocks bs es))"
    "if es = [] then rest = [] else old_blocks bs (unat (Revision (last es))) rest"
    "\<forall>e \<in> set es. safe_entry bs e \<and> length (eblocks bs e) \<le> M"
    "sorted_wrt (\<lambda>e e'. Revision e < Revision e') es"
  have "old_blocks bs R rest"
    using h(3) assms(2) by (cases "es = []") (auto intro: old_nil old_mono)
  moreover have "\<forall>e \<in> set es. safe_entry bs e \<and> unat (Revision e) < R"
    using h(4) assms(2) sorted_last [OF h(5)]
    by (metis empty_iff list.set(1) order.strict_trans1 word_le_nat_alt)
  ultimately have "old_blocks bs R (chain_blocks bs es @ rest)" by (intro old_chain)
  moreover have "bad_at (drop i (pre @ chain_blocks bs es @ rest))" if "i < length pre" for i
    using h(2) that bad_at_append [of "drop i (pre @ chain_blocks bs es)" rest] by simp
  ultimately show ?thesis
    unfolding h(1) using old_pre [of pre "chain_blocks bs es @ rest" bs R] by simp
qed


section \<open>Updates keep the invariant\<close>

lemma overwrite_at: "overwrite (length xs) ys (xs @ zs) = xs @ ys @ drop (length ys) zs"
  by (simp add: overwrite_def)

text \<open>A complete record after the current one extends the chain.\<close>

lemma region_append:
  assumes "region_inv bs M bl es p" "4 \<le> bs" "es \<noteq> []" "safe_entry bs e"
    and "Revision (last es) < Revision e" "length (eblocks bs e) \<le> M"
    and "p + length (eblocks bs e) \<le> length bl"
  shows "region_inv bs M (overwrite p (eblocks bs e) bl) (es @ [e]) (p + length (eblocks bs e))"
  using assms(1)
proof (rule region_invE)
  fix pre rest
  assume h: "bl = pre @ chain_blocks bs es @ rest"
    "\<forall>i < length pre. bad_at (drop i (pre @ chain_blocks bs es))"
    "p = length pre + length (chain_blocks bs es)"
    "if es = [] then rest = [] else old_blocks bs (unat (Revision (last es))) rest"
    "\<forall>b \<in> set bl. length b = bs" "\<forall>e \<in> set es. safe_entry bs e \<and> length (eblocks bs e) \<le> M"
    "sorted_wrt (\<lambda>e e'. Revision e < Revision e') es"
  let ?eb = "eblocks bs e"
  have ov: "overwrite p ?eb bl = pre @ chain_blocks bs (es @ [e]) @ drop (length ?eb) rest"
    using overwrite_at [of "pre @ chain_blocks bs es" ?eb rest] h(1,3) by simp
  have "bad_at (drop i (pre @ chain_blocks bs (es @ [e])))" if "i < length pre" for i
    using h(2) that bad_at_append [of "drop i (pre @ chain_blocks bs es)" ?eb] by simp
  moreover have "old_blocks bs (unat (Revision e)) (drop (length ?eb) rest)"
    using h(4) assms(2,3,5) by (auto intro!: old_drop elim!: old_mono simp: word_less_nat_alt)
  moreover have "sorted_wrt (\<lambda>e e'. Revision e < Revision e') (es @ [e])"
    using h(7) sorted_last [OF h(7)] assms(5) by (fastforce simp: sorted_wrt_append)
  moreover have "\<forall>b \<in> set (overwrite p ?eb bl). length b = bs"
    using h(5) eblocks_block assms(2) by (auto dest!: set_overwrite)
  ultimately show ?thesis
    unfolding region_inv_def ov using h(3,6) assms(4,6)
    by (intro conjI exI [of _ pre] exI [of _ "drop (length ?eb) rest"]) auto
qed

text \<open>A complete record at the start of the journal begins a new chain.\<close>

lemma region_restart:
  assumes "region_inv bs M bl es p" "4 \<le> bs" "safe_entry bs e"
    and "es \<noteq> [] \<Longrightarrow> Revision (last es) < Revision e" "length (eblocks bs e) \<le> M"
    and "length (eblocks bs e) \<le> length bl"
  shows "region_inv bs M (overwrite 0 (eblocks bs e) bl) [e] (length (eblocks bs e))"
proof -
  let ?eb = "eblocks bs e"
  have "old_blocks bs (unat (Revision e)) (drop (length ?eb) bl)"
    using region_old [OF assms(1)] assms(2,4) by (auto intro!: old_drop simp: word_less_nat_alt)
  moreover have "\<forall>b \<in> set (overwrite 0 ?eb bl). length b = bs"
    using assms(1,2) eblocks_block by (auto simp: region_inv_def dest!: set_overwrite)
  ultimately show ?thesis
    using assms(3,5) unfolding region_inv_def
    by (intro conjI exI [of _ "[]"] exI [of _ "drop (length ?eb) bl"]) (auto simp: overwrite_def)
qed

text \<open>
  An interrupted write after the current record leaves the chain alone, provided that what it left
  behind is no record.
\<close>

lemma region_torn_append:
  assumes "region_inv bs M bl es p" "4 \<le> bs" "es \<noteq> []" "safe_entry bs e"
    and "k \<le> length (eblocks bs e)" "p + k \<le> length bl"
    and "0 < k \<Longrightarrow> bad_at (drop p (overwrite p (take k (eblocks bs e)) bl))"
  shows "region_inv bs M (overwrite p (take k (eblocks bs e)) bl) es p"
  using assms(1)
proof (rule region_invE)
  fix pre rest
  assume h: "bl = pre @ chain_blocks bs es @ rest"
    "\<forall>i < length pre. bad_at (drop i (pre @ chain_blocks bs es))"
    "p = length pre + length (chain_blocks bs es)"
    "if es = [] then rest = [] else old_blocks bs (unat (Revision (last es))) rest"
    "\<forall>b \<in> set bl. length b = bs" "\<forall>e \<in> set es. safe_entry bs e \<and> length (eblocks bs e) \<le> M"
    "sorted_wrt (\<lambda>e e'. Revision e < Revision e') es"
  let ?t = "take k (eblocks bs e)" and ?R = "unat (Revision (last es))"
  have ov: "overwrite p ?t bl = pre @ chain_blocks bs es @ ?t @ drop k rest"
    using overwrite_at [of "pre @ chain_blocks bs es" ?t rest] h(1,3) assms(5) by simp
  have old: "old_blocks bs ?R (drop k rest)" using h(4) assms(2,3) by (auto intro: old_drop)
  have "old_blocks bs ?R (?t @ drop k rest)"
  proof (cases k)
    case (Suc k')
    with assms(5) obtain b bl' where eb: "eblocks bs e = b # bl'" by (cases "eblocks bs e") auto
    have raw: "\<forall>b \<in> set (take k' bl'). 4 \<le> length b \<and> no_magic b"
      using safe_tail [OF assms(2,4), of 1] eb by (auto dest: in_set_takeD)
    have "drop p (overwrite p ?t bl) = ?t @ drop k rest" unfolding ov using h(3) by simp
    then have "bad_at (b # take k' bl' @ drop k rest)" using assms(7) Suc eb by simp
    then show ?thesis using old_blocks.old_bad [OF _ old_raws [OF raw old]] Suc eb by simp
  qed (use old in simp)
  moreover have "\<forall>b \<in> set (overwrite p ?t bl). length b = bs"
    using h(5) eblocks_block assms(2) by (auto dest!: set_overwrite in_set_takeD)
  ultimately show ?thesis
    unfolding region_inv_def ov using h(2,3,6,7) assms(3)
    by (intro conjI exI [of _ pre] exI [of _ "?t @ drop k rest"]) auto
qed

text \<open>Cutting off the first blocks of a chain, but none of its last record.\<close>

lemma chain_chop:
  assumes "4 \<le> bs" "es \<noteq> []" "\<forall>e \<in> set es. safe_entry bs e"
    and "k + length (eblocks bs (last es)) \<le> length (chain_blocks bs es)"
  shows "\<exists>ts es1 es2. drop k (chain_blocks bs es) = ts @ chain_blocks bs es2 \<and> es = es1 @ es2 \<and>
    es2 \<noteq> [] \<and> (\<forall>b \<in> set ts. 4 \<le> length b \<and> no_magic b)"
  using assms(2-4)
proof (induction es arbitrary: k)
  case (Cons e es)
  consider "k = 0" | "0 < k" "es = []" | "0 < k" "es \<noteq> []" "k \<le> length (eblocks bs e)"
    | "es \<noteq> []" "length (eblocks bs e) < k" by linarith
  then show ?case
  proof cases
    case 1
    then show ?thesis by (intro exI [of _ "[]"] exI [of _ "e # es"]) auto
  next
    case 2
    with Cons.prems show ?thesis by simp
  next
    case 3
    with safe_tail [OF assms(1), of e k] Cons.prems show ?thesis
      by (intro exI [of _ "drop k (eblocks bs e)"] exI [of _ "[e]"] exI [of _ es]) auto
  next
    case 4
    with Cons.prems have "k - length (eblocks bs e) + length (eblocks bs (last es)) \<le> length (chain_blocks bs es)"
      by simp
    from Cons.IH [OF 4(1) _ this] Cons.prems obtain ts es1 es2 where
      "drop (k - length (eblocks bs e)) (chain_blocks bs es) = ts @ chain_blocks bs es2" "es = es1 @ es2"
      "es2 \<noteq> []" "\<forall>b \<in> set ts. 4 \<le> length b \<and> no_magic b" by auto
    with 4 show ?thesis by (intro exI [of _ ts] exI [of _ "e # es1"] exI [of _ es2]) auto
  qed
qed simp

text \<open>What the first \<open>k\<close> blocks leave of a chain: the rest of a record, then whole records.\<close>

lemma chain_rest:
  assumes "4 \<le> bs" "\<forall>e \<in> set es. safe_entry bs e"
    and "es \<noteq> [] \<Longrightarrow> k + length (eblocks bs (last es)) \<le> n + length (chain_blocks bs es)"
  obtains ts es1 es2 where "drop (k - n) (chain_blocks bs es) = ts @ chain_blocks bs es2"
    "es = es1 @ es2" "es = [] \<longleftrightarrow> es2 = []" "\<forall>b \<in> set ts. 4 \<le> length b \<and> no_magic b"
proof (cases "es = []")
  case True
  then show ?thesis using that [of "[]" "[]" "[]"] by simp
next
  case False
  have "chain_blocks bs es = chain_blocks bs (butlast es) @ eblocks bs (last es)"
    using False by (metis append_butlast_last_id append_Nil2 chain_blocks_simps)
  then have "k - n + length (eblocks bs (last es)) \<le> length (chain_blocks bs es)"
    using assms(3) [OF False] by (cases "k \<le> n") simp_all
  from chain_chop [OF assms(1) False _ this] assms(2) show ?thesis using that False by blast
qed

lemma drop_after:
  "length xs \<le> i \<Longrightarrow> i - length xs < length ys \<Longrightarrow> drop i (xs @ ys @ zs) = drop (i - length xs) ys @ zs"
  by simp

text \<open>Recovery finds no record before the remaining chain.\<close>

lemma torn_prefix_bad:
  assumes "4 \<le> bs" "safe_entry bs e" "k \<le> length (eblocks bs e)"
    and "bad_at (take k (eblocks bs e) @ drop k (pre @ ys))"
    and "\<forall>i < length pre. bad_at (drop i (pre @ ys))"
    and "drop (k - length pre) ys = ts @ zs" "\<forall>b \<in> set ts. 4 \<le> length b \<and> no_magic b"
    and i: "i < k + (length pre - k) + length ts"
  shows "bad_at (drop i (take k (eblocks bs e) @ drop k (pre @ ys)))"
proof -
  let ?t = "take k (eblocks bs e)"
  have lt: "length ?t = k" using assms(3) by simp
  consider "i = 0" | "0 < i" "i < k" | "k \<le> i" "i < length pre" | "k \<le> i" "length pre \<le> i" by linarith
  then show ?thesis
  proof cases
    case 1
    then show ?thesis using assms(4) by simp
  next
    case 2
    then have "drop i (?t @ drop k (pre @ ys)) = ?t ! i # drop (Suc i) (?t @ drop k (pre @ ys))"
      using lt Cons_nth_drop_Suc [of i ?t] by simp
    moreover have "?t ! i \<in> set (drop 1 (eblocks bs e))"
      using 2 assms(3) by (auto simp: in_set_conv_nth intro!: exI [of _ "i - 1"])
    ultimately show ?thesis using safe_tail [OF assms(1,2), of 1] bad_at_no_magic by fastforce
  next
    case 3
    then have "drop i (?t @ drop k (pre @ ys)) = drop i (pre @ ys)" using lt by simp
    then show ?thesis using assms(5) 3 by simp
  next
    case 4
    let ?j = "i - (k + (length pre - k))"
    have j: "?j < length ts" using i 4 by auto
    have X: "?t @ drop k (pre @ ys) = (?t @ drop k pre) @ ts @ zs" using assms(6) by simp
    have len: "length (?t @ drop k pre) = k + (length pre - k)" using lt by simp
    have "k + (length pre - k) \<le> i" using 4 by linarith
    then have "drop i (?t @ drop k (pre @ ys)) = drop ?j ts @ zs"
      unfolding X using j by (subst drop_after) (simp_all only: len)
    moreover have "ts ! ?j \<in> set ts" using j by simp
    ultimately show ?thesis
      using assms(7) bad_at_no_magic [of "ts ! ?j"] j by (simp add: Cons_nth_drop_Suc [symmetric])
  qed
qed

text \<open>
  An interrupted write at the start of the journal may cut off the front of the chain, but it does
  not reach the current record.
\<close>

lemma region_torn_restart:
  assumes "region_inv bs M bl es p" "4 \<le> bs" "safe_entry bs e"
    and "0 < k" "k \<le> length (eblocks bs e)" "k \<le> length bl"
    and "es \<noteq> [] \<Longrightarrow> k + length (eblocks bs (last es)) \<le> p"
    and "bad_record n (concat (overwrite 0 (take k (eblocks bs e)) bl))"
    and "n \<le> length (concat (take p (overwrite 0 (take k (eblocks bs e)) bl)))"
  shows "\<exists>es'. region_inv bs M (overwrite 0 (take k (eblocks bs e)) bl) es' p \<and>
    (es = [] \<longleftrightarrow> es' = []) \<and> (es \<noteq> [] \<longrightarrow> last es' = last es)"
  using assms(1)
proof (rule region_invE)
  fix pre rest
  assume h: "bl = pre @ chain_blocks bs es @ rest"
    "\<forall>i < length pre. bad_at (drop i (pre @ chain_blocks bs es))"
    "p = length pre + length (chain_blocks bs es)"
    "if es = [] then rest = [] else old_blocks bs (unat (Revision (last es))) rest"
    "\<forall>b \<in> set bl. length b = bs" "\<forall>e \<in> set es. safe_entry bs e \<and> length (eblocks bs e) \<le> M"
    "sorted_wrt (\<lambda>e e'. Revision e < Revision e') es"
  let ?t = "take k (eblocks bs e)" and ?X = "pre @ chain_blocks bs es"
  have kp: "k \<le> p" using assms(6,7) h(1,3,4) by (cases "es = []") auto
  have lt: "length ?t = k" using assms(5) by simp
  have ov: "overwrite 0 ?t bl = ?t @ drop k ?X @ rest"
    using h(1,3) kp lt by (simp add: overwrite_def)
  have p: "take p (overwrite 0 ?t bl) = ?t @ drop k ?X" unfolding ov using h(3) kp lt by simp
  have safe: "\<forall>e \<in> set es. safe_entry bs e" using h(6) by blast
  have room: "k + length (eblocks bs (last es)) \<le> length pre + length (chain_blocks bs es)" if "es \<noteq> []"
    using assms(7) [OF that] h(3) by simp
  obtain ts es1 es2 where c: "drop (k - length pre) (chain_blocks bs es) = ts @ chain_blocks bs es2"
    "es = es1 @ es2" "es = [] \<longleftrightarrow> es2 = []" "\<forall>b \<in> set ts. 4 \<le> length b \<and> no_magic b"
    by (rule chain_rest [OF assms(2) safe room])
  let ?pre = "?t @ drop k pre @ ts"
  have X': "?pre @ chain_blocks bs es2 = ?t @ drop k ?X" using c(1) by simp
  have "bad_at (?t @ drop k ?X)" using bad_at_prefix [OF assms(8,9)] p by simp
  from torn_prefix_bad [OF assms(2,3,5) this h(2) c(1,4)]
  have "bad_at (drop i (?t @ drop k ?X))" if "i < length ?pre" for i using that lt by simp
  then have "region_inv bs M (overwrite 0 ?t bl) es2 p"
  proof (intro region_invI [where pre = ?pre and rest = rest])
    show "overwrite 0 ?t bl = ?pre @ chain_blocks bs es2 @ rest" using ov X' by simp
    show "p = length ?pre + length (chain_blocks bs es2)"
      using arg_cong [OF X', of length] kp h(3) lt by simp
    show "\<forall>b \<in> set (overwrite 0 ?t bl). length b = bs"
      using h(5) eblocks_block assms(2) by (auto dest!: set_overwrite in_set_takeD)
    show "if es2 = [] then rest = [] else old_blocks bs (unat (Revision (last es2))) rest"
      using h(4) c(2,3) by (cases "es = []") auto
    show "sorted_wrt (\<lambda>e e'. Revision e < Revision e') es2"
      using h(7) c(2) by (simp add: sorted_wrt_append)
  qed (use h(6) c(2) X' in \<open>simp_all\<close>)
  moreover have "last es2 = last es" if "es \<noteq> []" using c(2,3) that by simp
  ultimately show ?thesis using c(3) by blast
qed

end
