(* ===== verification/JournalSpec.thy ===== *)
theory JournalSpec
  imports JournalRecovery
begin

text \<open>
  The journal on a device: the scan of \<open>init\<close> finds the current record, \<open>Update\<close> keeps the
  invariant whatever the device reports, and so a journal behaves as a register that holds the
  last data successfully written, across failed writes and restarts.
\<close>

section \<open>Geometry\<close>

definition jregion :: "bytes list \<Rightarrow> nat \<Rightarrow> nat \<Rightarrow> bytes list" where
  "jregion bl start len = take len (drop start bl)"

text \<open>
  The journal lies on the device, its bytes have \<open>uint\<close> addresses (its end may be \<open>2 ^ 32\<close>), and
  the header of a record fits into a block.
\<close>

definition journal_geom :: "nat \<Rightarrow> nat \<Rightarrow> nat \<Rightarrow> nat \<Rightarrow> bool" where
  "journal_geom bs N start len \<longleftrightarrow>
     entryHeaderSize \<le> bs \<and> start + len \<le> N \<and> (start + len) * bs \<le> W32 \<and> len * bs < W32"

text \<open>The most blocks a record that \<open>Update\<close> accepts can have: about a third of the journal.\<close>

definition max_blocks :: "nat \<Rightarrow> nat \<Rightarrow> nat" where
  "max_blocks bs len = nblocks bs (len * bs div minEntries)"

lemma max_blocks_third: "0 < bs \<Longrightarrow> 3 * max_blocks bs len \<le> len + 2"
proof -
  assume bs: "0 < bs"
  let ?k = "(len + 2) div 3"
  have "len * bs \<le> (3 * ?k) * bs" by (intro mult_le_mono1) linarith
  then have "len * bs \<le> 3 * (?k * bs)" by (simp only: mult.assoc)
  then have "len * bs div 3 \<le> ?k * bs" by linarith
  then have "max_blocks bs len \<le> ?k" by (simp add: max_blocks_def minEntries_def nblocks_le_iff [OF bs])
  then show ?thesis by linarith
qed

lemma geom_bs: "journal_geom bs N start len \<Longrightarrow> 48 \<le> bs"
  by (simp add: journal_geom_def entryHeaderSize_def)

lemma geom_small: "journal_geom bs N start len \<Longrightarrow> start + len < W32"
proof -
  assume g: "journal_geom bs N start len"
  have "(start + len) * 48 \<le> (start + len) * bs" by (intro mult_le_mono2 geom_bs [OF g])
  also have "\<dots> \<le> W32" using g by (simp add: journal_geom_def)
  finally show ?thesis by (simp add: W32_def)
qed

lemma length_jregion: "journal_geom bs (length bl) start len \<Longrightarrow> length (jregion bl start len) = len"
  by (auto simp: jregion_def journal_geom_def)

lemma jregion_overwrite:
  assumes "start + len \<le> length bl" "w + length xs \<le> len"
  shows "jregion (overwrite (start + w) xs bl) start len = overwrite w xs (jregion bl start len)"
proof -
  define A B C where "A = take start bl" and "B = take len (drop start bl)" and "C = drop (start + len) bl"
  have bl: "bl = A @ B @ C"
    unfolding A_def B_def C_def by (metis append_take_drop_id drop_drop add.commute)
  have l: "length A = start" "length B = len" using assms(1) by (simp_all add: A_def B_def)
  then have "overwrite (start + w) xs bl = A @ overwrite w xs B @ C"
    using assms(2) by (simp add: bl overwrite_def)
  moreover have "length (overwrite w xs B) = len" using assms(2) l by simp
  ultimately show ?thesis using l by (simp add: jregion_def bl)
qed


section \<open>Data that can be told from a record\<close>

definition safe_data :: "nat \<Rightarrow> bytes \<Rightarrow> bool" where
  "safe_data bs data \<longleftrightarrow> list_all no_magic (chunks bs (drop (bs - entryHeaderSize) data))"

lemma magic0_no_zero: "0 \<notin> set magic0"
  by (simp add: magic0_def string_bytes_def)

lemma no_magic_pad: "no_magic xs \<Longrightarrow> no_magic (xs @ replicate n 0)"
proof (cases "4 \<le> length xs")
  case False
  show ?thesis
  proof (cases n)
    case (Suc n')
    then have "0 \<in> set (take 4 (xs @ replicate n 0))"
      using False by (cases "4 - length xs") auto
    then show ?thesis using magic0_no_zero unfolding no_magic_def by metis
  qed (use False in \<open>auto simp: no_magic_def dest: arg_cong [of _ _ length]\<close>)
qed (simp add: no_magic_def)

lemma no_magic_chunks_pad:
  assumes "0 < bs" "list_all no_magic (chunks bs xs)" "length xs + n = k * bs" "n < bs"
  shows "list_all no_magic (chunks bs (xs @ replicate n 0))"
  using assms(2-4)
proof (induction k arbitrary: xs)
  case (Suc k)
  show ?case
  proof (cases "length xs < bs")
    case True
    have ne: "xs \<noteq> []" using Suc.prems True by auto
    have "k = 0" using Suc.prems True by (cases k) auto
    with Suc.prems have "length (xs @ replicate n 0) = bs" by simp
    then have "chunks bs (xs @ replicate n 0) = [xs @ replicate n 0]"
      using chunks_append_block [OF assms(1), of "xs @ replicate n 0" "[]"] by simp
    moreover have "no_magic xs" using Suc.prems(1) chunks_step [OF assms(1) ne] True by simp
    ultimately show ?thesis using no_magic_pad by simp
  next
    case False
    then have ne: "xs \<noteq> []" using assms(1) by auto
    have "chunks bs xs = take bs xs # chunks bs (drop bs xs)" using chunks_step [OF assms(1) ne] .
    moreover have "chunks bs (xs @ replicate n 0) = take bs xs # chunks bs (drop bs xs @ replicate n 0)"
      using False ne chunks_step [OF assms(1), of "xs @ replicate n 0"] by simp
    moreover have "list_all no_magic (chunks bs (drop bs xs @ replicate n 0))"
      using Suc False calculation(1) by (intro Suc.IH) auto
    ultimately show ?thesis using Suc.prems(1) by simp
  qed
qed simp

lemma safe_new_entry:
  assumes "48 \<le> bs" "rv \<noteq> 0" "length data < W32 div 2" "safe_data bs data"
  shows "safe_entry bs (new_entry rv data)"
proof -
  let ?e = "new_entry rv data"
  have bs: "0 < bs" using assms(1) by simp
  define hdr where "hdr = magic0 @ be_put 4 rv @ be_put 8 (of_nat (length data) :: 64 word) @ Sum256 data"
  have hdr: "length hdr = 48" "entry_bytes ?e = hdr @ data"
    by (simp_all add: hdr_def entry_bytes_def)
  obtain n where n: "pad_block bs (hdr @ data) = hdr @ data @ replicate n 0" "n < bs"
  proof (cases "length (hdr @ data) mod bs = 0")
    case True
    then show ?thesis using that [of 0] bs by (simp add: pad_block_def)
  next
    case False
    then show ?thesis using that [of "bs - length (hdr @ data) mod bs"] bs by (simp add: pad_block_def)
  qed
  define k where "k = nblocks bs (length (hdr @ data))"
  have "0 < k" using hdr bs by (simp add: k_def nblocks_pos)
  have len: "48 + length data + n = k * bs"
    using pad_block_length [OF bs, of "hdr @ data"] n hdr by (simp add: k_def)
  have ne: "hdr @ data @ replicate n 0 \<noteq> []" using hdr by auto
  have tl: "tl (eblocks bs ?e) = chunks bs (drop bs (hdr @ data @ replicate n 0))"
    by (simp add: eblocks_def to_blocks_def hdr(2) n(1) chunks_step [OF bs ne])
  have "list_all no_magic (chunks bs (drop bs (hdr @ data @ replicate n 0)))"
  proof (cases "length data + 48 \<le> bs")
    case True
    then have "k * bs < 2 * bs" using len n(2) by linarith
    then have "k * bs \<le> bs" using bs by simp
    then have "length (hdr @ data @ replicate n 0) \<le> bs"
      using hdr(1) len by (simp only: length_append length_replicate)
    then have "drop bs (hdr @ data @ replicate n 0) = []" by (rule drop_all)
    then show ?thesis by simp
  next
    case False
    then have "drop bs (hdr @ data @ replicate n 0) = drop (bs - 48) data @ replicate n 0"
      using hdr assms(1) by simp
    moreover have "length (drop (bs - 48) data) + n = (k - 1) * bs"
      using len False \<open>0 < k\<close> assms(1) by (simp add: diff_mult_distrib)
    ultimately show ?thesis
      using no_magic_chunks_pad [OF bs, of "drop (bs - 48) data" n "k - 1"] n(2) assms(4)
      by (simp add: safe_data_def entryHeaderSize_def)
  qed
  then show ?thesis using assms(2,3) by (simp add: safe_entry_def tl new_entry_wf)
qed


section \<open>The scan\<close>

context block_device
begin

lemma region_blocks: "ok d \<Longrightarrow> \<forall>b \<in> set (jregion (blocks d) start len). length b = BlockSize dev"
  using block_length unfolding jregion_def by (meson in_set_dropD in_set_takeD)

lemma region_src:
  assumes "ok d"
  shows "drop ((start + i) * BlockSize dev) (concat (take (start + len) (blocks d))) =
    concat (drop i (jregion (blocks d) start len))"
proof -
  have "\<forall>b \<in> set (take (start + len) (blocks d)). length b = BlockSize dev"
    using block_length [OF assms] by (meson in_set_takeD)
  from concat_drop_blocks [OF this, of "start + i"] show ?thesis
    by (simp add: jregion_def drop_take ac_simps)
qed

lemma unmarshal_region:
  assumes "ok d" "journal_geom (BlockSize dev) (length (blocks d)) start len" "i < len"
  shows "bad_at (drop i (jregion (blocks d) start len)) \<Longrightarrow>
      \<exists>e br. unmarshalEntry (br_ReadFull dev d) (newBlockReader dev (start + i)) = (Err e, br)"
    and "wf_entry e \<Longrightarrow> drop i (jregion (blocks d) start len) = eblocks (BlockSize dev) e @ rest \<Longrightarrow>
      \<exists>br. unmarshalEntry (br_ReadFull dev d) (newBlockReader dev (start + i)) = (Ok e, br) \<and>
        uadd (usub (br_pos br) 1 div BlockSize dev) 1 = start + (i + length (eblocks (BlockSize dev) e))"
proof -
  define E where "E = start + len"
  let ?bs = "BlockSize dev" and ?src = "concat (take E (blocks d))"
  have g: "E \<le> length (blocks d)" "E * ?bs \<le> W32"
    using assms(2) by (simp_all add: journal_geom_def E_def)
  have rd: "byte_reader (br_ReadFull dev d) (br_at dev (blocks d) E) ?src"
    using br_reader [OF assms(1) g] .
  have at: "br_at dev (blocks d) E (newBlockReader dev (start + i)) ((start + i) * ?bs)"
    using assms(3) by (intro newBlockReader_at g(2)) (simp add: E_def)
  have src: "drop ((start + i) * ?bs) ?src = concat (drop i (jregion (blocks d) start len))"
    unfolding E_def by (rule region_src [OF assms(1)])
  have lsrc: "length ?src = E * ?bs"
    using block_length [OF assms(1)] g(1) length_concat_blocks [of "take E (blocks d)" ?bs]
    by (auto dest: in_set_takeD)
  have le: "(start + i) * ?bs \<le> length ?src"
    unfolding lsrc using assms(3) by (intro mult_le_mono1) (simp add: E_def)
  { assume "bad_at (drop i (jregion (blocks d) start len))"
    then obtain n where "bad_record n (drop ((start + i) * ?bs) ?src)" unfolding bad_at_def src ..
    from byte_reader.unmarshal_bad [OF rd at le this]
    show "\<exists>e br. unmarshalEntry (br_ReadFull dev d) (newBlockReader dev (start + i)) = (Err e, br)" . }
  assume wf: "wf_entry e" and eb: "drop i (jregion (blocks d) start len) = eblocks ?bs e @ rest"
  obtain zs where zs: "concat (eblocks ?bs e) = entry_bytes e @ zs" using concat_eblocks by blast
  have "drop ((start + i) * ?bs) ?src = entry_bytes e @ zs @ concat rest" by (simp add: src eb zs)
  from byte_reader.unmarshal_ok [OF rd at wf this] obtain br where
    u: "unmarshalEntry (br_ReadFull dev d) (newBlockReader dev (start + i)) = (Ok e, br)"
    and at': "br_at dev (blocks d) E br ((start + i) * ?bs + entry_Size e)" by blast
  define P where "P = (start + i) * ?bs + entry_Size e"
  have P: "0 < P" "P \<le> E * ?bs" "br_pos br = P mod W32"
    using at' by (simp_all add: P_def br_at_def entry_Size_def entryHeaderSize_def)
  have "usub (br_pos br) 1 = P - 1"
  proof (cases "P = W32")
    case True
    then show ?thesis using P(3) usub_wraps [of 0 1] by (simp add: W32_def)
  next
    case False
    then show ?thesis using P g(2) by simp
  qed
  moreover have "(P - 1) div ?bs + 1 = start + i + length (eblocks ?bs e)"
  proof -
    have "(P - 1) div ?bs + 1 = (P - 1 + ?bs) div ?bs" using div_add_self2 [of ?bs "P - 1"] bs_pos by simp
    also have "P - 1 + ?bs = (start + i) * ?bs + (entry_Size e + ?bs - 1)"
      using P(1) bs_pos by (simp add: P_def entry_Size_def entryHeaderSize_def)
    also have "\<dots> div ?bs = start + i + nblocks ?bs (entry_Size e)"
      using bs_pos unfolding nblocks_def by (subst div_mult_self3) simp_all
    finally show ?thesis by (simp add: length_eblocks [OF bs_pos wf])
  qed
  moreover have "(P - 1) div ?bs + 1 \<le> E"
  proof -
    have "P - 1 < E * ?bs" using P by simp
    then show ?thesis by (simp add: less_mult_imp_div_less Suc_leI)
  qed
  ultimately show "\<exists>br. unmarshalEntry (br_ReadFull dev d) (newBlockReader dev (start + i)) = (Ok e, br) \<and>
      uadd (usub (br_pos br) 1 div ?bs) 1 = start + (i + length (eblocks ?bs e))"
    using u geom_small [OF assms(2)] by (intro exI [of _ br]) (simp add: E_def add.assoc)
qed

text \<open>One step of the loop for each thing the scan can find.\<close>

lemma scan_bad:
  assumes "ok d" "journal_geom (BlockSize dev) (length (blocks d)) start len" "i < len"
    and "bad_at (drop i (jregion (blocks d) start len))"
  shows "journal_scan dev d start len (start + i) e n =
    (if 0 < Revision e then Ok (e, n) else journal_scan dev d start len (start + Suc i) e n)"
proof -
  from unmarshal_region(1) [OF assms] obtain err br where
    "unmarshalEntry (br_ReadFull dev d) (newBlockReader dev (start + i)) = (Err err, br)" by blast
  then show ?thesis
    unfolding journal_scan.simps [of dev d start len "start + i"]
    using assms(3) geom_small [OF assms(2)] by simp
qed

lemma scan_ent:
  assumes "ok d" "journal_geom (BlockSize dev) (length (blocks d)) start len" "i < len"
    and "wf_entry e" "drop i (jregion (blocks d) start len) = eblocks (BlockSize dev) e @ rest"
    and "lba = start + (i + length (eblocks (BlockSize dev) e))"
  shows "Revision l < Revision e \<Longrightarrow>
      journal_scan dev d start len (start + i) l n = journal_scan dev d start len lba e lba"
    and "Revision e < Revision l \<Longrightarrow> journal_scan dev d start len (start + i) l n = Ok (l, start + i)"
proof -
  from unmarshal_region(2) [OF assms(1-5)] obtain br where
    u: "unmarshalEntry (br_ReadFull dev d) (newBlockReader dev (start + i)) = (Ok e, br)"
    "uadd (usub (br_pos br) 1 div BlockSize dev) 1 = lba" unfolding assms(6) by blast
  have lt: "start + i < uadd start len" using assms(3) geom_small [OF assms(2)] by simp
  show "Revision l < Revision e \<Longrightarrow>
      journal_scan dev d start len (start + i) l n = journal_scan dev d start len lba e lba"
    unfolding journal_scan.simps [of dev d start len "start + i"] using u lt by (simp add: Let_def)
  show "Revision e < Revision l \<Longrightarrow> journal_scan dev d start len (start + i) l n = Ok (l, start + i)"
    unfolding journal_scan.simps [of dev d start len "start + i"] using u lt
    by (auto simp: not_less_iff_gr_or_eq)
qed

lemma scan_pre:
  assumes "ok d" "journal_geom (BlockSize dev) (length (blocks d)) start len" "k \<le> len"
    and "\<And>i. i < k \<Longrightarrow> bad_at (drop i (jregion (blocks d) start len))"
  shows "i \<le> k \<Longrightarrow> journal_scan dev d start len (start + i) zero_entry n =
    journal_scan dev d start len (start + k) zero_entry n"
proof (induction "k - i" arbitrary: i)
  case (Suc m)
  then have i: "i < k" by simp
  then have "journal_scan dev d start len (start + i) zero_entry n =
    journal_scan dev d start len (start + Suc i) zero_entry n"
    using scan_bad [OF assms(1,2) _ assms(4) [OF i], of zero_entry n] assms(3)
    by (simp add: zero_entry_def)
  with Suc.hyps(1) [of "Suc i"] Suc.hyps(2) i show ?case by simp
qed simp

lemma scan_chain:
  assumes "ok d" "journal_geom (BlockSize dev) (length (blocks d)) start len"
  shows "es \<noteq> [] \<Longrightarrow> drop i (jregion (blocks d) start len) = chain_blocks (BlockSize dev) es @ rest \<Longrightarrow>
    \<forall>e \<in> set es. wf_entry e \<Longrightarrow> sorted_wrt (\<lambda>e e'. Revision e < Revision e') (l # es) \<Longrightarrow>
    lba = start + (i + length (chain_blocks (BlockSize dev) es)) \<Longrightarrow>
    journal_scan dev d start len (start + i) l n = journal_scan dev d start len lba (last es) lba"
proof (induction es arbitrary: i l n)
  case (Cons e es)
  let ?n = "length (eblocks (BlockSize dev) e)"
  have "0 < ?n" using Cons.prems(3) eblocks_pos [OF bs_pos] by simp
  then have "drop i (jregion (blocks d) start len) \<noteq> []" using Cons.prems(2) by auto
  then have i: "i < len" by (simp add: jregion_def)
  have "journal_scan dev d start len (start + i) l n =
      journal_scan dev d start len (start + (i + ?n)) e (start + (i + ?n))"
    using Cons.prems by (intro scan_ent(1) [OF assms i, of e "chain_blocks (BlockSize dev) es @ rest"]) auto
  also have "\<dots> = journal_scan dev d start len lba (last (e # es)) lba"
  proof (cases "es = []")
    case True
    then show ?thesis using Cons.prems(5) by simp
  next
    case False
    have dr: "drop (i + ?n) (jregion (blocks d) start len) = chain_blocks (BlockSize dev) es @ rest"
      using arg_cong [OF Cons.prems(2), of "drop ?n"] by (simp add: add.commute)
    have "journal_scan dev d start len (start + (i + ?n)) e (start + (i + ?n)) =
        journal_scan dev d start len lba (last es) lba"
      using False dr Cons.prems(3-5) by (intro Cons.IH) auto
    then show ?thesis using False by simp
  qed
  finally show ?case .
qed simp

lemma scan_rest:
  assumes "ok d" "journal_geom (BlockSize dev) (length (blocks d)) start len" "p \<le> len"
    and "old_blocks (BlockSize dev) (unat (Revision l)) (drop p (jregion (blocks d) start len))"
    and "Revision l \<noteq> 0"
  shows "journal_scan dev d start len (start + p) l (start + p) = Ok (l, start + p)"
proof (cases "p = len")
  case True
  then show ?thesis
    unfolding journal_scan.simps [of dev d start len "start + p"] using geom_small [OF assms(2)] by simp
next
  case False
  then have p: "p < len" using assms(3) by simp
  from assms(4) show ?thesis
  proof (cases rule: old_blocks.cases)
    case old_nil
    then show ?thesis using p length_jregion [OF assms(2)] by simp
  next
    case (old_bad b bl)
    then show ?thesis using scan_bad [OF assms(1,2) p] assms(5) by (simp add: word_gt_0)
  next
    case (old_ent e bl)
    then show ?thesis
      using scan_ent(2) [OF assms(1,2) p, of e bl] by (simp add: safe_entry_def word_less_nat_alt)
  qed
qed

end


section \<open>The invariant of an open journal\<close>

text \<open>
  The blocks satisfy \<open>region_inv\<close> for a chain of records, the last of which is the current one. The
  next record goes right after it, or to the start of the journal if that is far enough from the
  current record: it can not be overwritten by a record of at most \<open>max_blocks\<close> blocks that is not
  completely written.
\<close>

definition last_entry :: "entry list \<Rightarrow> entry" where
  "last_entry es = (if es = [] then zero_entry else last es)"

definition next_ok :: "nat \<Rightarrow> nat \<Rightarrow> entry list \<Rightarrow> nat \<Rightarrow> nat \<Rightarrow> bool" where
  "next_ok bs M es p w \<longleftrightarrow>
     (if es = [] then w = 0 else w = p \<or> w = 0 \<and> M + length (eblocks bs (last es)) \<le> Suc p)"

definition journal_inv :: "nat \<Rightarrow> bytes list \<Rightarrow> nat \<Rightarrow> nat \<Rightarrow> journal \<Rightarrow> bool" where
  "journal_inv bs bl start len j \<longleftrightarrow>
     j_start j = start \<and> j_length j = len \<and>
     maxDataBytes j = usub (umul len bs div minEntries) entryHeaderSize \<and>
     (\<exists>es p w. region_inv bs (max_blocks bs len) (jregion bl start len) es p \<and>
        current j = last_entry es \<and> nextBlock j = start + w \<and> next_ok bs (max_blocks bs len) es p w)"

lemma journal_invI:
  assumes "journal_inv bs bl0 start len j0" "j_start j = j_start j0" "j_length j = j_length j0"
    and "maxDataBytes j = maxDataBytes j0" "current j = last_entry es" "nextBlock j = start + w"
    and "region_inv bs (max_blocks bs len) (jregion bl start len) es p" "next_ok bs (max_blocks bs len) es p w"
  shows "journal_inv bs bl start len j"
  using assms(1-6) assms(7,8) unfolding journal_inv_def by metis

lemma region_inv_p: "region_inv bs M bl es p \<Longrightarrow> p \<le> length bl \<and> (es = [] \<longrightarrow> p = length bl)"
  by (auto elim!: region_invE split: if_splits)

lemma region_inv_last:
  assumes "region_inv bs M bl es p" "es \<noteq> []"
  shows "safe_entry bs (last es)" "length (eblocks bs (last es)) \<le> M" "length (eblocks bs (last es)) \<le> p"
proof -
  show "safe_entry bs (last es)" "length (eblocks bs (last es)) \<le> M"
    using assms by (auto elim!: region_invE)
  have "es = butlast es @ [last es]" using assms(2) by simp
  then have "length (chain_blocks bs es) = length (chain_blocks bs (butlast es)) + length (eblocks bs (last es))"
    by (metis append.right_neutral chain_blocks_simps length_append)
  then show "length (eblocks bs (last es)) \<le> p" using assms(1) by (auto elim!: region_invE)
qed

text \<open>A record that does not fit after the current one has room at the start.\<close>

lemma next_ok_restart:
  assumes "region_inv bs (max_blocks bs len) bl es p" "length bl = len" "0 < bs"
    and "m \<le> max_blocks bs len" "len < p + m" "es \<noteq> []"
  shows "next_ok bs (max_blocks bs len) es p 0"
proof -
  have "length (eblocks bs (last es)) \<le> max_blocks bs len" using region_inv_last [OF assms(1,6)] by simp
  moreover have "3 * max_blocks bs len \<le> len + 2" using max_blocks_third [OF assms(3)] .
  ultimately have "max_blocks bs len + length (eblocks bs (last es)) \<le> Suc p" using assms(4,5) by linarith
  then show ?thesis by (simp add: next_ok_def assms(6))
qed

context block_device
begin

lemma scan_region:
  assumes "ok d" "journal_geom (BlockSize dev) (length (blocks d)) start len"
    and "region_inv (BlockSize dev) M (jregion (blocks d) start len) es p"
  shows "journal_scan dev d start len start zero_entry start =
    Ok (last_entry es, if es = [] then start else start + p)"
  using assms(3)
proof (rule region_invE)
  let ?bs = "BlockSize dev" and ?bl = "jregion (blocks d) start len"
  fix pre rest
  assume h: "?bl = pre @ chain_blocks ?bs es @ rest"
    "\<forall>i < length pre. bad_at (drop i (pre @ chain_blocks ?bs es))"
    "p = length pre + length (chain_blocks ?bs es)"
    "if es = [] then rest = [] else old_blocks ?bs (unat (Revision (last es))) rest"
    "\<forall>e \<in> set es. safe_entry ?bs e \<and> length (eblocks ?bs e) \<le> M"
    "sorted_wrt (\<lambda>e e'. Revision e < Revision e') es"
  have len: "length ?bl = len" using length_jregion [OF assms(2)] .
  have lp: "length pre \<le> len" using h(1) len by (metis le_add1 length_append)
  have "bad_at (drop i ?bl)" if "i < length pre" for i
    using h(2) that bad_at_append [of "drop i (pre @ chain_blocks ?bs es)" rest] by (simp add: h(1))
  from scan_pre [OF assms(1,2) lp this, of 0 start]
  have pre: "journal_scan dev d start len start zero_entry start =
    journal_scan dev d start len (start + length pre) zero_entry start" by simp
  show ?thesis
  proof (cases "es = []")
    case True
    then have "length pre = len" using h(1,4) len by simp
    then show ?thesis
      using pre True geom_small [OF assms(2)]
        journal_scan.simps [of dev d start len "start + length pre" zero_entry start]
      by (simp add: last_entry_def)
  next
    case False
    have dr: "drop (length pre) ?bl = chain_blocks ?bs es @ rest" using h(1) by simp
    have pos: "\<forall>e \<in> set es. Revision e \<noteq> 0 \<and> wf_entry e" using h(5) by (simp add: safe_entry_def wf_entry_def)
    have "journal_scan dev d start len (start + length pre) zero_entry start =
        journal_scan dev d start len (start + p) (last es) (start + p)"
      using False pos h(3,6)
      by (intro scan_chain [OF assms(1,2) _ dr]) (auto simp: zero_entry_def word_gt_0)
    also have "\<dots> = Ok (last es, start + p)"
    proof (rule scan_rest [OF assms(1,2)])
      show "p \<le> len" using region_inv_p [OF assms(3)] len by simp
      have "drop p ?bl = rest" using h(1,3) by simp
      then show "old_blocks ?bs (unat (Revision (last es))) (drop p ?bl)" using h(4) False by simp
      show "Revision (last es) \<noteq> 0" using pos False by simp
    qed
    finally show ?thesis using pre False by (simp add: last_entry_def)
  qed
qed

lemma open_region:
  assumes "ok d" "journal_geom (BlockSize dev) (length (blocks d)) start len"
    and "region_inv (BlockSize dev) (max_blocks (BlockSize dev) len) (jregion (blocks d) start len) es p"
  shows "\<exists>j. OpenJournal dev d start len = Ok j \<and> current j = last_entry es \<and>
    journal_inv (BlockSize dev) (blocks d) start len j"
proof -
  let ?bs = "BlockSize dev" and ?M = "max_blocks (BlockSize dev) len"
  have len: "length (jregion (blocks d) start len) = len" using length_jregion [OF assms(2)] .
  define w where "w = (if es = [] \<or> p = len then 0 else p)"
  have "next_ok ?bs ?M es p w"
  proof (cases "es \<noteq> [] \<and> p = len")
    case True
    then have "0 < ?M" using region_inv_last [OF assms(3)] eblocks_pos [OF bs_pos]
      unfolding safe_entry_def by (metis gr_zeroI leD)
    then show ?thesis
      using next_ok_restart [OF assms(3) len bs_pos, of ?M] True by (simp add: w_def)
  qed (auto simp: w_def next_ok_def)
  moreover have "uadd start len = start + len" using geom_small [OF assms(2)] by simp
  moreover have "p \<le> len" using region_inv_p [OF assms(3)] len by simp
  ultimately show ?thesis
    using assms(3) scan_region [OF assms]
    by (auto simp: OpenJournal_def journal_init_def journal_inv_def w_def intro!: exI [of _ es] exI [of _ p])
qed

text \<open>Where \<open>Update\<close> writes: the data it accepts fits there.\<close>

lemma update_fits:
  assumes "journal_geom (BlockSize dev) N start len"
    and "maxDataBytes j = usub (umul len (BlockSize dev) div minEntries) entryHeaderSize"
    and "\<not> to_int (maxDataBytes j) < int (length data)"
  shows "entryHeaderSize + length data \<le> len * BlockSize dev div minEntries"
proof -
  define x where "x = len * BlockSize dev div 3"
  have x: "x < W32 div 2" and u: "umul len (BlockSize dev) div 3 = x"
    using assms(1) by (auto simp: journal_geom_def x_def W32_def)
  have mx: "maxDataBytes j = usub x 48" using assms(2) u by (simp add: minEntries_def entryHeaderSize_def)
  have "48 \<le> x"
  proof (rule ccontr)
    assume "\<not> 48 \<le> x"
    then have "usub x 48 = W32 + x - 48" by (intro usub_wraps) (simp_all add: W32_def)
    with \<open>\<not> 48 \<le> x\<close> have "to_int (maxDataBytes j) < 0" by (simp add: mx to_int_def W32_def)
    with assms(3) show False by linarith
  qed
  then have "usub x 48 = x - 48" using x by (intro usub_small) (auto simp: W32_def)
  moreover have "to_int (x - 48) = int (x - 48)" using x by (intro to_int_small) (simp add: W32_def)
  ultimately show ?thesis
    using assms(3) mx \<open>48 \<le> x\<close> by (simp add: x_def [symmetric] minEntries_def entryHeaderSize_def)
qed

lemma update_shape:
  assumes "journal_geom (BlockSize dev) (length (blocks d)) start len"
    and "journal_inv (BlockSize dev) (blocks d) start len j"
    and "\<not> to_int (maxDataBytes j) < int (length data)"
    and e: "e = new_entry (Revision (current j) + 1) data" and m: "m = length (eblocks (BlockSize dev) e)"
  shows "\<exists>es p w. region_inv (BlockSize dev) (max_blocks (BlockSize dev) len) (jregion (blocks d) start len) es p \<and>
    current j = last_entry es \<and> next_ok (BlockSize dev) (max_blocks (BlockSize dev) len) es p w \<and>
    m \<le> max_blocks (BlockSize dev) len \<and> w + m \<le> len \<and> length data < W32 div 2 \<and>
    journal_Update dev d j data =
      (case WriteBlocks dev d (start + w) (entry_bytes e) of
         (Err err, d') \<Rightarrow> (Err (Errorf ''failed to write blocks: %v'' [err]), d', j\<lparr>nextBlock := start + w\<rparr>)
       | (Panic pn, d') \<Rightarrow> (Panic pn, d', j\<lparr>nextBlock := start + w\<rparr>)
       | (Ok n, d') \<Rightarrow> (Ok (), d', j\<lparr>nextBlock := uadd (start + w) n, current := e\<rparr>))"
proof -
  let ?bs = "BlockSize dev" and ?M = "max_blocks (BlockSize dev) len"
  have len: "length (jregion (blocks d) start len) = len" using length_jregion [OF assms(1)] .
  from assms(2) obtain es p w0 where inv: "j_start j = start" "j_length j = len"
    "maxDataBytes j = usub (umul len ?bs div minEntries) entryHeaderSize"
    "region_inv ?bs ?M (jregion (blocks d) start len) es p" "current j = last_entry es"
    "nextBlock j = start + w0" "next_ok ?bs ?M es p w0" unfolding journal_inv_def by blast
  have fits: "entry_Size e \<le> len * ?bs div minEntries"
    using update_fits [OF assms(1) inv(3) assms(3)] by (simp add: e entry_Size_def)
  have m_eq: "m = nblocks ?bs (entry_Size e)"
    by (simp add: m eblocks_def length_to_blocks [OF bs_pos] e entry_bytes_new)
  have mM: "m \<le> ?M" unfolding m_eq max_blocks_def by (intro nblocks_mono fits)
  have "len \<noteq> 0"
  proof
    assume "len = 0"
    with fits show False by (simp add: entry_Size_def entryHeaderSize_def)
  qed
  then have mlen: "m \<le> len" using mM max_blocks_third [OF bs_pos, of len] by linarith
  have p: "p \<le> len" using region_inv_p [OF inv(4)] len by simp
  have w0: "w0 \<le> len" using inv(7) p by (auto simp: next_ok_def split: if_splits)
  have dl: "length data < W32 div 2"
    using fits assms(1) unfolding e entry_Size_def minEntries_def journal_geom_def W32_def by simp linarith
  define cap where "cap = umul (usub (uadd (j_start j) (j_length j)) (nextBlock j)) ?bs"
  have "(len - w0) * ?bs \<le> len * ?bs" by (intro mult_le_mono1) simp
  then have "(len - w0) * ?bs < W32" using assms(1) unfolding journal_geom_def by linarith
  then have cap: "cap = (len - w0) * ?bs"
    using geom_small [OF assms(1)] w0 by (simp add: cap_def inv(1,2,6))
  have full: "cap < entry_Size e \<longleftrightarrow> len < w0 + m"
    using nblocks_le_iff [OF bs_pos, of "entry_Size e" "len - w0"] w0 unfolding cap m_eq by linarith
  define w where "w = (if cap < entry_Size e then 0 else w0)"
  have "w + m \<le> len" using full mlen by (auto simp: w_def)
  moreover have "next_ok ?bs ?M es p w"
  proof (cases "cap < entry_Size e")
    case True
    then have "len < w0 + m" "w0 \<noteq> 0" using full mlen by auto
    then have "es \<noteq> []" "w0 = p" using inv(7) by (auto simp: next_ok_def split: if_splits)
    with \<open>len < w0 + m\<close> show ?thesis
      using next_ok_restart [OF inv(4) len bs_pos mM] True by (simp add: w_def)
  qed (simp add: w_def inv(7))
  moreover have j': "(if cap < entry_Size e then j\<lparr>nextBlock := j_start j\<rparr> else j) = j\<lparr>nextBlock := start + w\<rparr>"
    using inv(1,6) by (cases j) (simp add: w_def)
  moreover have "journal_Update dev d j data =
      (case WriteBlocks dev d (start + w) (entry_bytes e) of
         (Err err, d') \<Rightarrow> (Err (Errorf ''failed to write blocks: %v'' [err]), d', j\<lparr>nextBlock := start + w\<rparr>)
       | (Panic pn, d') \<Rightarrow> (Panic pn, d', j\<lparr>nextBlock := start + w\<rparr>)
       | (Ok n, d') \<Rightarrow> (Ok (), d', j\<lparr>nextBlock := uadd (start + w) n, current := e\<rparr>))"
    unfolding journal_Update_def Let_def e [symmetric] cap_def [symmetric] j' using assms(3)
    by (simp add: e split: prod.split res.split)
  ultimately show ?thesis using inv(4,5) mM dl by blast
qed

end


section \<open>Interrupted writes\<close>

text \<open>
  A failed write has changed nothing, or what it left behind where the record should be does not
  have the digest in the record's header. Otherwise the record is complete: the part that was not
  written was already there.
\<close>

definition torn_visible :: "bytes list \<Rightarrow> bytes list \<Rightarrow> nat \<Rightarrow> bytes \<Rightarrow> bool" where
  "torn_visible bl bl' lba data \<longleftrightarrow> bl' = bl \<or>
     Sum256 (take (length data) (drop entryHeaderSize (concat (drop lba bl')))) \<noteq> Sum256 data"

lemma torn_bad:
  assumes "48 \<le> bs" "e = new_entry rv data" "rv \<noteq> 0" "length data < W32 div 2"
    and "0 < k" "k \<le> length (eblocks bs e)" "\<forall>b \<in> set bl. length b = bs"
    and "w + length (eblocks bs e) \<le> length bl" "bl' = overwrite w (take k (eblocks bs e)) bl"
    and "Sum256 (take (length data) (drop 48 (concat (drop w bl')))) \<noteq> Sum256 data"
  shows "bad_record (entry_Size e) (concat (drop w bl'))"
proof -
  have bs: "0 < bs" using assms(1) by simp
  let ?eb = "eblocks bs e" and ?s = "concat (drop w bl')"
  define hdr where "hdr = magic0 @ be_put 4 rv @ be_put 8 (of_nat (length data) :: 64 word) @ Sum256 data"
  have hdr: "length hdr = 48" "entry_bytes e = hdr @ data"
    by (simp_all add: hdr_def entry_bytes_def assms(2))
  have dr: "drop w bl' = take k ?eb @ drop (w + k) bl"
    using assms(6,8) by (simp add: assms(9) overwrite_def)
  obtain zs where zs: "concat ?eb = entry_bytes e @ zs" using concat_eblocks by blast
  have beb: "\<forall>b \<in> set ?eb. length b = bs" using eblocks_block [OF bs] by blast
  have ct: "concat (take k ?eb) = take (k * bs) (entry_bytes e @ zs)"
    using concat_take_blocks [OF beb, of k] zs by simp
  have kbs: "48 \<le> k * bs" using assms(1,5) by (cases k) auto
  have t48: "take 48 ?s = hdr"
  proof -
    have "length (concat (take k ?eb)) = k * bs"
      using assms(6) beb by (subst length_concat_blocks [of _ bs]) (auto dest: in_set_takeD)
    then have "take 48 ?s = take 48 (concat (take k ?eb))" using kbs by (simp add: dr)
    also have "\<dots> = hdr" using kbs hdr by (simp add: ct)
    finally show ?thesis .
  qed
  have ls: "entry_Size e \<le> length ?s"
  proof -
    have "entry_Size e = length (entry_bytes e)" using assms(2) by (simp add: entry_bytes_new)
    also have "\<dots> \<le> length (concat ?eb)" by (simp add: zs)
    also have "\<dots> = length ?eb * bs" using length_concat_blocks [OF beb] .
    also have "\<dots> \<le> length (drop w bl') * bs"
      using assms(6,8) by (intro mult_le_mono1) (simp add: dr)
    also have "\<dots> = length ?s"
      using beb assms(7) by (intro length_concat_blocks [symmetric]) (auto simp: dr dest: in_set_takeD in_set_dropD)
    finally show ?thesis .
  qed
  define data' where "data' = take (length data) (drop 48 ?s)"
  have ld: "length data' = length data"
    using ls by (simp add: data'_def assms(2) entry_Size_def entryHeaderSize_def)
  have "take (entry_Size e) ?s = take 48 ?s @ data'"
    by (simp add: data'_def assms(2) entry_Size_def entryHeaderSize_def take_add)
  then have "take (entry_Size e) ?s =
      magic0 @ be_put 4 rv @ be_put 8 (of_nat (length data) :: 64 word) @ Sum256 data @ data'"
    by (simp add: t48 hdr_def)
  moreover have "unat (of_nat (length data) :: 64 word) = length data'"
    using assms(4) ld by (simp add: unat_of_nat_64 W32_def)
  moreover have "Sum256 data' \<noteq> Sum256 data" using assms(10) by (simp add: data'_def)
  ultimately show ?thesis
    unfolding bad_record_def using ls assms(3,4) ld
    by (intro conjI disjI2 exI [of _ rv] exI [of _ "of_nat (length data) :: 64 word"]
        exI [of _ "Sum256 data"] exI [of _ data']) auto
qed

lemma region_torn:
  assumes "region_inv bs M bl es p" "48 \<le> bs" "safe_entry bs e" "next_ok bs M es p w"
    and "length (eblocks bs e) \<le> M" "w + length (eblocks bs e) \<le> length bl"
    and "0 < k" "k < length (eblocks bs e)" "bl' = overwrite w (take k (eblocks bs e)) bl"
    and "bad_record (entry_Size e) (concat (drop w bl'))"
  shows "\<exists>es' p'. region_inv bs M bl' es' p' \<and> last_entry es' = last_entry es \<and> next_ok bs M es' p' w"
proof (cases "es \<noteq> [] \<and> w = p")
  case True
  then have "region_inv bs M (overwrite p (take k (eblocks bs e)) bl) es p"
    using assms(2,6,8-10) by (intro region_torn_append [OF assms(1) _ _ assms(3)]) (auto simp: bad_at_def)
  then show ?thesis using True assms(4,9) by blast
next
  case False
  let ?m = "length (eblocks bs e)"
  have w: "w = 0" using False assms(4) by (auto simp: next_ok_def split: if_splits)
  have far: "es \<noteq> [] \<Longrightarrow> M + length (eblocks bs (last es)) \<le> Suc p"
    using False assms(4) by (auto simp: next_ok_def)
  have bs: "0 < bs" using assms(2) by simp
  have mp: "?m \<le> p"
  proof (cases "es = []")
    case True
    then show ?thesis using assms(6) region_inv_p [OF assms(1)] by simp
  next
    case False
    then have "0 < length (eblocks bs (last es))"
      using region_inv_last(1) [OF assms(1)] eblocks_pos [OF bs] by (simp add: safe_entry_def)
    then show ?thesis using far [OF False] assms(5) by linarith
  qed
  have bl': "\<forall>b \<in> set bl'. length b = bs"
    using assms(1) eblocks_block [OF bs, of _ e] unfolding assms(9)
    by (auto elim!: region_invE simp: overwrite_def dest: in_set_takeD in_set_dropD)
  have lbl: "length bl' = length bl" using assms(6,8,9) w by simp
  have "entry_Size e \<le> ?m * bs"
    using assms(3) nblocks_le_iff [OF bs, of "entry_Size e" ?m] by (simp add: length_eblocks [OF bs] safe_entry_def)
  also have "\<dots> \<le> p * bs" using mp by simp
  also have "\<dots> = length (concat (take p bl'))"
    using bl' lbl region_inv_p [OF assms(1)] by (subst length_concat_blocks [of _ bs]) (auto dest: in_set_takeD)
  finally have n: "entry_Size e \<le> length (concat (take p bl'))" .
  have "\<exists>es'. region_inv bs M (overwrite 0 (take k (eblocks bs e)) bl) es' p \<and>
      (es = [] \<longleftrightarrow> es' = []) \<and> (es \<noteq> [] \<longrightarrow> last es' = last es)"
  proof (rule region_torn_restart [OF assms(1) _ assms(3,7)])
    show "es \<noteq> [] \<Longrightarrow> k + length (eblocks bs (last es)) \<le> p" using far assms(5,8) by linarith
    show "bad_record (entry_Size e) (concat (overwrite 0 (take k (eblocks bs e)) bl))"
      using assms(9,10) w by simp
  qed (use assms(2,6,8,9) w n in simp_all)
  then obtain es' where "region_inv bs M bl' es' p" "es = [] \<longleftrightarrow> es' = []" "es \<noteq> [] \<longrightarrow> last es' = last es"
    using assms(9) w by blast
  moreover from this have "last_entry es' = last_entry es" by (simp add: last_entry_def)
  moreover have "next_ok bs M es' p w" using assms(4) calculation(2,3) by (simp add: next_ok_def)
  ultimately show ?thesis by blast
qed

lemma torn_visible_region:
  assumes "\<forall>b \<in> set bl'. length b = bs" "start + len \<le> length bl'" "w + m \<le> len"
    and "48 + length data \<le> m * bs"
  shows "take (length data) (drop 48 (concat (drop (start + w) bl'))) =
    take (length data) (drop 48 (concat (drop w (jregion bl' start len))))"
proof -
  have split: "drop (start + w) bl' = drop w (jregion bl' start len) @ drop (start + len) bl'"
  proof -
    have "drop start bl' = jregion bl' start len @ drop (start + len) bl'"
      unfolding jregion_def by (metis append_take_drop_id drop_drop add.commute)
    then have "drop w (drop start bl') = drop w (jregion bl' start len @ drop (start + len) bl')" by simp
    moreover have "w \<le> length (jregion bl' start len)" using assms(2,3) by (simp add: jregion_def)
    ultimately show ?thesis by (simp add: add.commute)
  qed
  have "length (concat (drop w (jregion bl' start len))) = (len - w) * bs"
    using assms(1,2) by (subst length_concat_blocks [of _ bs])
      (auto simp: jregion_def dest: in_set_dropD in_set_takeD)
  moreover have "m * bs \<le> (len - w) * bs" using assms(3) by (intro mult_le_mono1) simp
  ultimately have "48 + length data \<le> length (concat (drop w (jregion bl' start len)))"
    using assms(4) by linarith
  then show ?thesis by (simp add: split)
qed


section \<open>Updates\<close>

lemma next_revision_greater: "r + 1 \<noteq> 0 \<Longrightarrow> r < r + 1" for r :: "32 word"
proof -
  assume "r + 1 \<noteq> 0"
  then have "unat (1 + r) = Suc (unat r)" by (intro unatSuc) (simp add: add.commute)
  then show ?thesis by (simp add: word_less_nat_alt add.commute)
qed

context block_device
begin

text \<open>Whatever an update reports, it touches the blocks of its journal only.\<close>

lemma update_frame:
  assumes "ok d" "journal_geom (BlockSize dev) (length (blocks d)) start len"
    and "journal_inv (BlockSize dev) (blocks d) start len j"
    and "journal_Update dev d j data = (r, d', j')"
  shows "ok d' \<and> length (blocks d') = length (blocks d) \<and> (\<forall>p. r \<noteq> Panic p) \<and>
    (\<forall>i < length (blocks d). i < start \<or> start + len \<le> i \<longrightarrow> blocks d' ! i = blocks d ! i)"
proof (cases "to_int (maxDataBytes j) < int (length data)")
  case True
  then show ?thesis using assms(1,4) by (auto simp: journal_Update_def)
next
  case False
  define e where "e = new_entry (Revision (current j) + 1) data"
  define m where "m = length (eblocks (BlockSize dev) e)"
  from update_shape [OF assms(2,3) False e_def m_def] obtain w where w: "w + m \<le> len"
    and u: "journal_Update dev d j data =
      (case WriteBlocks dev d (start + w) (entry_bytes e) of
         (Err err, d') \<Rightarrow> (Err (Errorf ''failed to write blocks: %v'' [err]), d', j\<lparr>nextBlock := start + w\<rparr>)
       | (Panic pn, d') \<Rightarrow> (Panic pn, d', j\<lparr>nextBlock := start + w\<rparr>)
       | (Ok n, d') \<Rightarrow> (Ok (), d', j\<lparr>nextBlock := uadd (start + w) n, current := e\<rparr>))" by blast
  obtain q d1 where wr: "WriteBlocks dev d (start + w) (entry_bytes e) = (q, d1)" by fastforce
  have m: "m = nblocks (BlockSize dev) (length (entry_bytes e))"
    by (simp add: m_def eblocks_def length_to_blocks [OF bs_pos])
  have fit: "start + w + nblocks (BlockSize dev) (length (entry_bytes e)) \<le> length (blocks d)"
    using w assms(2) by (simp add: m [symmetric] journal_geom_def)
  have ne: "entry_bytes e \<noteq> []" by (simp add: e_def entry_bytes_new)
  note W = write_prefix [OF assms(1) ne fit wr] write_length [OF assms(1) ne fit wr]
    write_frame [OF assms(1) ne fit wr] write_no_panic [OF assms(1) ne fit]
  have "d1 = d'" using u wr assms(4) by (cases q) auto
  moreover have "\<forall>p. r \<noteq> Panic p" using u wr assms(4) W(4) by (cases q) auto
  ultimately show ?thesis using W(1-3) w by (auto simp: m [symmetric])
qed

lemma update_succeeds:
  assumes "ok d" "journal_geom (BlockSize dev) (length (blocks d)) start len"
    and "journal_inv (BlockSize dev) (blocks d) start len j" "reliable dev blocks ok"
    and "entryHeaderSize + length data \<le> len * BlockSize dev div minEntries"
  shows "\<exists>d' j'. journal_Update dev d j data = (Ok (), d', j')"
proof -
  have acc: "\<not> to_int (maxDataBytes j) < int (length data)"
  proof -
    define x where "x = len * BlockSize dev div 3"
    have x: "x < W32 div 2" "umul len (BlockSize dev) div 3 = x"
      using assms(2) by (auto simp: journal_geom_def x_def W32_def)
    have le: "48 + length data \<le> x" using assms(5) by (simp add: x_def minEntries_def entryHeaderSize_def)
    have "maxDataBytes j = x - 48"
      using assms(3) x le by (simp add: journal_inv_def minEntries_def entryHeaderSize_def W32_def)
    then show ?thesis using le x(1) by simp
  qed
  define e where "e = new_entry (Revision (current j) + 1) data"
  define m where "m = length (eblocks (BlockSize dev) e)"
  from update_shape [OF assms(2,3) acc e_def m_def] obtain w where w: "w + m \<le> len"
    and u: "journal_Update dev d j data =
      (case WriteBlocks dev d (start + w) (entry_bytes e) of
         (Err err, d') \<Rightarrow> (Err (Errorf ''failed to write blocks: %v'' [err]), d', j\<lparr>nextBlock := start + w\<rparr>)
       | (Panic pn, d') \<Rightarrow> (Panic pn, d', j\<lparr>nextBlock := start + w\<rparr>)
       | (Ok n, d') \<Rightarrow> (Ok (), d', j\<lparr>nextBlock := uadd (start + w) n, current := e\<rparr>))" by blast
  have m: "m = nblocks (BlockSize dev) (length (entry_bytes e))"
    by (simp add: m_def eblocks_def length_to_blocks [OF bs_pos])
  have fit: "start + w + nblocks (BlockSize dev) (length (entry_bytes e)) \<le> length (blocks d)"
    using w assms(2) by (simp add: m [symmetric] journal_geom_def)
  have ne: "entry_bytes e \<noteq> []" by (simp add: e_def entry_bytes_new)
  from assms(4) assms(1) ne fit obtain n d' where "WriteBlocks dev d (start + w) (entry_bytes e) = (Ok n, d')"
    unfolding reliable_def by blast
  then show ?thesis by (simp add: u)
qed

lemma update_ok:
  assumes "ok d" "journal_geom (BlockSize dev) (length (blocks d)) start len"
    and "journal_inv (BlockSize dev) (blocks d) start len j"
    and "journal_Update dev d j data = (Ok (), d', j')"
    and "safe_data (BlockSize dev) data" "Revision (current j) + 1 \<noteq> 0"
  shows "current j' = new_entry (Revision (current j) + 1) data \<and>
    journal_inv (BlockSize dev) (blocks d') start len j'"
proof -
  let ?bs = "BlockSize dev" and ?M = "max_blocks (BlockSize dev) len"
  have acc: "\<not> to_int (maxDataBytes j) < int (length data)"
    using assms(4) by (auto simp: journal_Update_def)
  define e where "e = new_entry (Revision (current j) + 1) data"
  define m where "m = length (eblocks ?bs e)"
  from update_shape [OF assms(2,3) acc e_def m_def] obtain es p w where
    inv: "region_inv ?bs ?M (jregion (blocks d) start len) es p" "current j = last_entry es"
      "next_ok ?bs ?M es p w" "m \<le> ?M" "w + m \<le> len" "length data < W32 div 2"
    and u: "journal_Update dev d j data =
      (case WriteBlocks dev d (start + w) (entry_bytes e) of
         (Err err, d') \<Rightarrow> (Err (Errorf ''failed to write blocks: %v'' [err]), d', j\<lparr>nextBlock := start + w\<rparr>)
       | (Panic pn, d') \<Rightarrow> (Panic pn, d', j\<lparr>nextBlock := start + w\<rparr>)
       | (Ok n, d') \<Rightarrow> (Ok (), d', j\<lparr>nextBlock := uadd (start + w) n, current := e\<rparr>))" by blast
  from u assms(4) obtain n where wr: "WriteBlocks dev d (start + w) (entry_bytes e) = (Ok n, d')"
    and j': "j' = j\<lparr>nextBlock := uadd (start + w) n, current := e\<rparr>"
    by (auto split: prod.splits res.splits)
  have m: "m = nblocks ?bs (length (entry_bytes e))"
    by (simp add: m_def eblocks_def length_to_blocks [OF bs_pos])
  have fit: "start + w + nblocks ?bs (length (entry_bytes e)) \<le> length (blocks d)"
    using inv(5) assms(2) by (simp add: m [symmetric] journal_geom_def)
  have ne: "entry_bytes e \<noteq> []" by (simp add: e_def entry_bytes_new)
  from write_ok [OF assms(1) ne fit wr]
  have n: "n = m" and bl': "blocks d' = overwrite (start + w) (eblocks ?bs e) (blocks d)"
    by (simp_all add: m eblocks_def)
  have reg: "jregion (blocks d') start len = overwrite w (eblocks ?bs e) (jregion (blocks d) start len)"
    unfolding bl' using inv(5) assms(2)
    by (intro jregion_overwrite) (simp_all add: m_def journal_geom_def)
  have len: "length (jregion (blocks d) start len) = len" using length_jregion [OF assms(2)] .
  have safe: "safe_entry ?bs e"
    using safe_new_entry [OF geom_bs [OF assms(2)] assms(6) inv(6) assms(5)] by (simp add: e_def)
  have newer: "es \<noteq> [] \<Longrightarrow> Revision (last es) < Revision e"
    using assms(6) inv(2) next_revision_greater by (simp add: e_def last_entry_def)
  have next': "nextBlock j' = start + (w + m)"
    using inv(5) geom_small [OF assms(2)] by (simp add: j' n)
  have four: "4 \<le> ?bs" using geom_bs [OF assms(2)] by simp
  have ex: "\<exists>es' p'. region_inv ?bs ?M (jregion (blocks d') start len) es' p' \<and>
      last_entry es' = e \<and> next_ok ?bs ?M es' p' (w + m)"
  proof (cases "es \<noteq> [] \<and> w = p")
    case True
    then show ?thesis
      using region_append [OF inv(1) four, of e] safe newer inv(4,5) len
      by (intro exI [of _ "es @ [e]"] exI [of _ "p + m"])
        (auto simp: reg m_def last_entry_def next_ok_def)
  next
    case False
    then have "w = 0" using inv(3) by (auto simp: next_ok_def split: if_splits)
    then show ?thesis
      using region_restart [OF inv(1) four safe newer] inv(4,5) len
      by (intro exI [of _ "[e]"] exI [of _ m]) (auto simp: reg m_def last_entry_def next_ok_def)
  qed
  have "journal_inv ?bs (blocks d') start len j'"
    using ex next' by (elim exE conjE) (rule journal_invI [OF assms(3)], simp_all add: j')
  then show ?thesis by (simp add: j' e_def)
qed

lemma update_err:
  assumes "ok d" "journal_geom (BlockSize dev) (length (blocks d)) start len"
    and "journal_inv (BlockSize dev) (blocks d) start len j"
    and "journal_Update dev d j data = (Err err, d', j')"
    and "safe_data (BlockSize dev) data" "Revision (current j) + 1 \<noteq> 0"
    and "torn_visible (blocks d) (blocks d') (nextBlock j') data"
  shows "current j' = current j \<and> journal_inv (BlockSize dev) (blocks d') start len j'"
proof (cases "to_int (maxDataBytes j) < int (length data)")
  case True
  then show ?thesis using assms(3,4) by (auto simp: journal_Update_def)
next
  case False
  let ?bs = "BlockSize dev" and ?M = "max_blocks (BlockSize dev) len"
  define e where "e = new_entry (Revision (current j) + 1) data"
  define m where "m = length (eblocks ?bs e)"
  from update_shape [OF assms(2,3) False e_def m_def] obtain es p w where
    inv: "region_inv ?bs ?M (jregion (blocks d) start len) es p" "current j = last_entry es"
      "next_ok ?bs ?M es p w" "m \<le> ?M" "w + m \<le> len" "length data < W32 div 2"
    and u: "journal_Update dev d j data =
      (case WriteBlocks dev d (start + w) (entry_bytes e) of
         (Err err, d') \<Rightarrow> (Err (Errorf ''failed to write blocks: %v'' [err]), d', j\<lparr>nextBlock := start + w\<rparr>)
       | (Panic pn, d') \<Rightarrow> (Panic pn, d', j\<lparr>nextBlock := start + w\<rparr>)
       | (Ok n, d') \<Rightarrow> (Ok (), d', j\<lparr>nextBlock := uadd (start + w) n, current := e\<rparr>))" by blast
  from u assms(4) obtain x where wr: "WriteBlocks dev d (start + w) (entry_bytes e) = (Err x, d')"
    and j': "j' = j\<lparr>nextBlock := start + w\<rparr>"
    by (auto split: prod.splits res.splits)
  have m: "m = nblocks ?bs (length (entry_bytes e))"
    by (simp add: m_def eblocks_def length_to_blocks [OF bs_pos])
  have fit: "start + w + nblocks ?bs (length (entry_bytes e)) \<le> length (blocks d)"
    using inv(5) assms(2) by (simp add: m [symmetric] journal_geom_def)
  have ne: "entry_bytes e \<noteq> []" by (simp add: e_def entry_bytes_new)
  from write_err [OF assms(1) ne fit wr] obtain k where ok': "ok d'" and k: "k < m"
    and bl': "blocks d' = overwrite (start + w) (take k (eblocks ?bs e)) (blocks d)"
    by (auto simp: m eblocks_def)
  have "\<exists>es' p'. region_inv ?bs ?M (jregion (blocks d') start len) es' p' \<and>
      last_entry es' = last_entry es \<and> next_ok ?bs ?M es' p' w"
  proof (cases "blocks d' = blocks d")
    case True
    then show ?thesis using inv(1,3) by auto
  next
    case False
    then have "0 < k" using bl' by (cases k) auto
    let ?bl = "jregion (blocks d) start len" and ?bl' = "jregion (blocks d') start len"
    have g: "48 \<le> ?bs" "start + len \<le> length (blocks d)"
      using geom_bs [OF assms(2)] assms(2) by (simp_all add: journal_geom_def)
    have reg: "?bl' = overwrite w (take k (eblocks ?bs e)) ?bl"
      unfolding bl' using inv(5) k g(2) by (intro jregion_overwrite) (simp_all add: m_def)
    have len: "length ?bl = len" using length_jregion [OF assms(2)] .
    have lb': "length (blocks d') = length (blocks d)"
      using inv(5) k g(2) unfolding bl' by (intro length_overwrite) (simp add: m_def)
    have size: "48 + length data \<le> m * ?bs"
    proof -
      have "length (entry_bytes e) \<le> m * ?bs" 
        by (rule iffD1 [OF nblocks_le_iff [OF bs_pos]]) (rule eq_refl, rule m [symmetric])
      then show ?thesis by (simp add: e_def entry_bytes_new entry_Size_def entryHeaderSize_def)
    qed
    have "Sum256 (take (length data) (drop 48 (concat (drop w ?bl')))) \<noteq> Sum256 data"
      using assms(7) False torn_visible_region [OF blocks_length [OF ok'] _ inv(5) size, of start] lb' g(2)
      by (simp add: torn_visible_def j' entryHeaderSize_def)
    then have "bad_record (entry_Size e) (concat (drop w ?bl'))"
      using torn_bad [OF g(1) e_def assms(6) inv(6) \<open>0 < k\<close> _ region_blocks [OF assms(1)] _ reg] k inv(5) len
      by (simp add: m_def)
    moreover have "safe_entry ?bs e"
      using safe_new_entry [OF g(1) assms(6) inv(6) assms(5)] by (simp add: e_def)
    ultimately show ?thesis
      using region_torn [OF inv(1) g(1) _ inv(3) _ _ \<open>0 < k\<close> _ reg] inv(4,5) k len by (simp add: m_def)
  qed
  then have "journal_inv ?bs (blocks d') start len j'"
    by (elim exE conjE) (rule journal_invI [OF assms(3)], simp_all add: j' inv(2))
  then show ?thesis by (simp add: j')
qed

end


section \<open>A journal is a register\<close>

text \<open>
  The states of a device and an open journal on it, with the data and the revision a register would
  hold: the journal is opened on blocks without a record, updated, updated without success, and
  opened again (after a restart, which loses what is in memory), and between these steps the
  device changes outside the journal. The data of every update is \<open>safe_data\<close> and the revisions do
  not wrap around.
\<close>

inductive jreach :: "'d BlockReaderWriter \<Rightarrow> ('d \<Rightarrow> bytes list) \<Rightarrow> ('d \<Rightarrow> bool) \<Rightarrow> nat \<Rightarrow> nat \<Rightarrow>
    'd \<Rightarrow> journal \<Rightarrow> bytes \<times> 32 word \<Rightarrow> bool"
  for dev blocks ok start len where
  jr_open: "ok d \<Longrightarrow> journal_geom (BlockSize dev) (length (blocks d)) start len \<Longrightarrow>
    \<forall>b \<in> set (jregion (blocks d) start len). no_magic b \<Longrightarrow>
    OpenJournal dev d start len = Ok j \<Longrightarrow> jreach dev blocks ok start len d j ([], 0)"
| jr_update: "jreach dev blocks ok start len d j (x, rv) \<Longrightarrow>
    journal_Update dev d j data = (Ok (), d', j') \<Longrightarrow> safe_data (BlockSize dev) data \<Longrightarrow> rv + 1 \<noteq> 0 \<Longrightarrow>
    jreach dev blocks ok start len d' j' (data, rv + 1)"
| jr_failed: "jreach dev blocks ok start len d j (x, rv) \<Longrightarrow>
    journal_Update dev d j data = (Err err, d', j') \<Longrightarrow> safe_data (BlockSize dev) data \<Longrightarrow> rv + 1 \<noteq> 0 \<Longrightarrow>
    torn_visible (blocks d) (blocks d') (nextBlock j') data \<Longrightarrow>
    jreach dev blocks ok start len d' j' (x, rv)"
| jr_reopen: "jreach dev blocks ok start len d j a \<Longrightarrow> OpenJournal dev d start len = Ok j' \<Longrightarrow>
    jreach dev blocks ok start len d j' a"
| jr_other: "jreach dev blocks ok start len d j a \<Longrightarrow> ok d' \<Longrightarrow> length (blocks d') = length (blocks d) \<Longrightarrow>
    jregion (blocks d') start len = jregion (blocks d) start len \<Longrightarrow>
    jreach dev blocks ok start len d' j a"

context block_device
begin

lemma open_inv:
  assumes "ok d" "journal_geom (BlockSize dev) (length (blocks d)) start len"
    and "journal_inv (BlockSize dev) (blocks d) start len j"
  shows "\<exists>j'. OpenJournal dev d start len = Ok j' \<and> current j' = current j \<and>
    journal_inv (BlockSize dev) (blocks d) start len j'"
  using open_region [OF assms(1,2)] assms(3) unfolding journal_inv_def by metis

lemma open_empty:
  assumes "ok d" "journal_geom (BlockSize dev) (length (blocks d)) start len"
    and "\<forall>b \<in> set (jregion (blocks d) start len). no_magic b"
  shows "\<exists>j. OpenJournal dev d start len = Ok j \<and> current j = zero_entry \<and>
    journal_inv (BlockSize dev) (blocks d) start len j"
proof -
  have "region_inv (BlockSize dev) (max_blocks (BlockSize dev) len) (jregion (blocks d) start len) []
      (length (jregion (blocks d) start len))"
    using geom_bs [OF assms(2)] region_blocks [OF assms(1)] assms(3) by (intro region_inv_empty) auto
  from open_region [OF assms(1,2) this] show ?thesis by (simp add: last_entry_def)
qed

lemma jreach_inv:
  "jreach dev blocks ok start len d j a \<Longrightarrow>
    ok d \<and> journal_geom (BlockSize dev) (length (blocks d)) start len \<and>
    journal_inv (BlockSize dev) (blocks d) start len j \<and> journal_Data j = a"
proof (induction rule: jreach.induct)
  case (jr_open d j)
  then show ?case using open_empty by (fastforce simp: journal_Data_def zero_entry_def)
next
  case (jr_update d j x rv data d' j')
  then have "Revision (current j) = rv" by (simp add: journal_Data_def)
  with jr_update update_ok [of d start len j data d' j'] update_frame [of d start len j data "Ok ()" d' j']
  show ?case by (simp add: journal_Data_def)
next
  case (jr_failed d j x rv data err d' j')
  then have "Revision (current j) = rv" by (simp add: journal_Data_def)
  with jr_failed update_err [of d start len j data err d' j'] update_frame [of d start len j data "Err err" d' j']
  show ?case by (simp add: journal_Data_def)
next
  case (jr_reopen d j a j')
  then show ?case using open_inv [of d start len j] by (auto simp: journal_Data_def)
next
  case (jr_other d j a d')
  then show ?case by (simp add: journal_inv_def)
qed

text \<open>
  In every state the journal holds what the register holds, and opening it again succeeds and finds
  the same.
\<close>

lemma recover:
  assumes "jreach dev blocks ok start len d j a"
  shows "journal_Data j = a \<and> (\<exists>j'. OpenJournal dev d start len = Ok j' \<and> journal_Data j' = a)"
  using jreach_inv [OF assms] open_inv [of d start len j] by (auto simp: journal_Data_def)

end

end
