(* ===== verification/Slots.thy ===== *)
theory Slots
  imports JournalSpec
begin

text \<open>
  Partitions and slots of \<open>slots/slots.go\<close>: a partition cuts a range of blocks into slots, each of
  which is a journal opened on first use. The device \<open>dev\<close> of a partition and its state \<open>d\<close> are
  arguments of the operations, a \<open>*Slot\<close> is the index of the slot in its partition.

  The lemmas show that the slots of a partition do not overlap, that a partition behaves as a
  vector of registers with a compare-and-swap write (\<open>part_rep\<close>), and that the vector survives
  restarts.
\<close>

section \<open>The operations\<close>

record Geometry =
  Start :: nat
  Length :: nat
  SlotLengths :: "nat list"

definition Geometry_Validate :: "Geometry \<Rightarrow> unit res" where
  "Geometry_Validate g =
     (let t = foldl uadd 0 (SlotLengths g)
      in if Length g < t
         then Err (Errorf ''invalid geometry: total slot length (%d blocks) exceeds overall length (%d blocks)'' [])
         else Ok ())"

record Slot =
  s_start :: nat
  s_length :: nat
  s_journal :: "journal option"

record Partition =
  p_slots :: "Slot list"

fun open_slots :: "nat \<Rightarrow> nat list \<Rightarrow> Slot list" where
  "open_slots b [] = []"
| "open_slots b (l # ls) = \<lparr>s_start = b, s_length = l, s_journal = None\<rparr> # open_slots (uadd b l) ls"

definition OpenPartition :: "Geometry \<Rightarrow> Partition res" where
  "OpenPartition geo =
     (case Geometry_Validate geo of
        Err e \<Rightarrow> Err e
      | Panic x \<Rightarrow> Panic x
      | Ok _ \<Rightarrow> Ok \<lparr>p_slots = open_slots (Start geo) (SlotLengths geo)\<rparr>)"

definition NumSlots :: "Partition \<Rightarrow> nat" where
  "NumSlots p = length (p_slots p)"

definition Slot_Open :: "'d BlockReaderWriter \<Rightarrow> 'd \<Rightarrow> Slot \<Rightarrow> unit res \<times> Slot" where
  "Slot_Open dev d s =
     (case s_journal s of
        Some _ \<Rightarrow> (Ok (), s)
      | None \<Rightarrow>
          (case OpenJournal dev d (s_start s) (s_length s) of
             Err e \<Rightarrow> (Err (Errorf ''failed to open journal: %v'' [e]), s)
           | Panic x \<Rightarrow> (Panic x, s)
           | Ok j \<Rightarrow> (Ok (), s\<lparr>s_journal := Some j\<rparr>)))"

text \<open>\<open>Open\<close> logs an error of \<open>Slot.Open\<close> and returns the slot all the same.\<close>

definition Partition_Open :: "'d BlockReaderWriter \<Rightarrow> 'd \<Rightarrow> Partition \<Rightarrow> nat \<Rightarrow> nat res \<times> Partition" where
  "Partition_Open dev d p slot =
     (if length (p_slots p) \<le> slot
      then (Err (Errorf ''invalid slot %d (partition has %d slots)'' []), p)
      else
        case Slot_Open dev d (p_slots p ! slot) of
          (Panic x, s) \<Rightarrow> (Panic x, p\<lparr>p_slots := (p_slots p)[slot := s]\<rparr>)
        | (_, s) \<Rightarrow> (Ok slot, p\<lparr>p_slots := (p_slots p)[slot := s]\<rparr>))"

text \<open>A slot whose journal is not open has a nil pointer there.\<close>

definition Slot_Read :: "Slot \<Rightarrow> (bytes \<times> 32 word) res" where
  "Slot_Read s =
     (case s_journal s of
        None \<Rightarrow> Panic NilDeref
      | Some j \<Rightarrow> Ok (Data (current j), Revision (current j)))"

definition Slot_Write :: "'d BlockReaderWriter \<Rightarrow> 'd \<Rightarrow> Slot \<Rightarrow> bytes \<Rightarrow> unit res \<times> 'd \<times> Slot" where
  "Slot_Write dev d s b =
     (case s_journal s of
        None \<Rightarrow> (Panic NilDeref, d, s)
      | Some j \<Rightarrow>
          (case journal_Update dev d j b of (r, d', j') \<Rightarrow> (r, d', s\<lparr>s_journal := Some j'\<rparr>)))"

definition Slot_CheckAndWrite :: "'d BlockReaderWriter \<Rightarrow> 'd \<Rightarrow> Slot \<Rightarrow> 32 word \<Rightarrow> bytes \<Rightarrow> unit res \<times> 'd \<times> Slot" where
  "Slot_CheckAndWrite dev d s token b =
     (case s_journal s of
        None \<Rightarrow> (Panic NilDeref, d, s)
      | Some j \<Rightarrow>
          if Revision (current j) \<noteq> token
          then (Err (Errorf ''invalid token, slot updated since then'' []), d, s)
          else
            (case journal_Update dev d j b of (r, d', j') \<Rightarrow> (r, d', s\<lparr>s_journal := Some j'\<rparr>)))"

definition eraseSlot :: "'d BlockReaderWriter \<Rightarrow> 'd \<Rightarrow> Partition \<Rightarrow> nat \<Rightarrow> unit res \<times> 'd \<times> Partition" where
  "eraseSlot dev d p i =
     (if length (p_slots p) \<le> i then (Panic IndexOutOfRange, d, p)
      else
        let s = p_slots p ! i;
            p' = p\<lparr>p_slots := (p_slots p)[i := s\<lparr>s_journal := None\<rparr>]\<rparr>;
            len = umul (s_length s) (BlockSize dev)
        in if W32 div 2 \<le> len then (Panic MakeLenOutOfRange, d, p')
           else case WriteBlocks dev d (s_start s) (replicate len 0) of
                  (Ok _, d') \<Rightarrow> (Ok (), d', p')
                | (Err e, d') \<Rightarrow> (Err (Errorf ''slot %d occupying blocks [%d, %d): %v'' [e]), d', p')
                | (Panic x, d') \<Rightarrow> (Panic x, d', p'))"

text \<open>The loop of \<open>Erase\<close> over the slots from \<open>i\<close> on: errors are logged and forgotten.\<close>

fun erase_loop :: "'d BlockReaderWriter \<Rightarrow> 'd \<Rightarrow> Partition \<Rightarrow> nat \<Rightarrow> nat \<Rightarrow> unit res \<times> 'd \<times> Partition" where
  "erase_loop dev d p i 0 = (Ok (), d, p)"
| "erase_loop dev d p i (Suc n) =
     (case eraseSlot dev d p i of
        (Panic x, d', p') \<Rightarrow> (Panic x, d', p')
      | (_, d', p') \<Rightarrow> erase_loop dev d' p' (Suc i) n)"

definition Partition_Erase :: "'d BlockReaderWriter \<Rightarrow> 'd \<Rightarrow> Partition \<Rightarrow> unit res \<times> 'd \<times> Partition" where
  "Partition_Erase dev d p = erase_loop dev d p 0 (length (p_slots p))"


section \<open>The layout of a partition\<close>

definition part_wf :: "nat \<Rightarrow> nat \<Rightarrow> Partition \<Rightarrow> bool" where
  "part_wf bs N p \<longleftrightarrow>
     list_all (\<lambda>s. journal_geom bs N (s_start s) (s_length s)) (p_slots p) \<and>
     sorted_wrt (\<lambda>s t. s_start s + s_length s \<le> s_start t) (p_slots p)"

definition geo_ok :: "nat \<Rightarrow> nat \<Rightarrow> Geometry \<Rightarrow> bool" where
  "geo_ok bs N g \<longleftrightarrow> entryHeaderSize \<le> bs \<and> Start g + Length g \<le> N \<and> (Start g + Length g) * bs \<le> W32 \<and>
     list_all (\<lambda>l. l * bs < W32) (SlotLengths g) \<and> sum_list (SlotLengths g) \<le> Length g"

lemma foldl_uadd: "a + sum_list ls < W32 \<Longrightarrow> foldl uadd a ls = a + sum_list ls"
  by (induction ls arbitrary: a) simp_all

lemma open_slots_bounds:
  "b + sum_list ls < W32 \<Longrightarrow> s \<in> set (open_slots b ls) \<Longrightarrow>
    b \<le> s_start s \<and> s_start s + s_length s \<le> b + sum_list ls \<and> s_length s \<in> set ls \<and> s_journal s = None"
proof (induction ls arbitrary: b)
  case (Cons l ls)
  have "uadd b l = b + l" using Cons.prems(1) by simp
  then consider "s = \<lparr>s_start = b, s_length = l, s_journal = None\<rparr>" | "s \<in> set (open_slots (b + l) ls)"
    using Cons.prems(2) by auto
  then show ?case
  proof cases
    case 2
    with Cons.IH [of "b + l"] Cons.prems(1) show ?thesis by auto
  qed simp
qed simp

lemma open_slots_sorted:
  "b + sum_list ls < W32 \<Longrightarrow> sorted_wrt (\<lambda>s t. s_start s + s_length s \<le> s_start t) (open_slots b ls)"
proof (induction ls arbitrary: b)
  case (Cons l ls)
  then show ?case using open_slots_bounds [of "b + l" ls] by (auto simp: ac_simps)
qed simp

lemma length_open_slots [simp]: "length (open_slots b ls) = length ls"
  by (induction ls arbitrary: b) simp_all

lemma geo_ok_small: "geo_ok bs N g \<Longrightarrow> Start g + Length g < W32"
proof -
  assume g: "geo_ok bs N g"
  have "(Start g + Length g) * 48 \<le> (Start g + Length g) * bs"
    using g by (intro mult_le_mono2) (simp add: geo_ok_def entryHeaderSize_def)
  also have "\<dots> \<le> W32" using g by (simp add: geo_ok_def)
  finally show ?thesis by (simp add: W32_def)
qed

lemma OpenPartition_layout:
  assumes "geo_ok bs N g"
  shows "\<exists>p. OpenPartition g = Ok p \<and> part_wf bs N p \<and> length (p_slots p) = length (SlotLengths g) \<and>
    list_all (\<lambda>s. s_journal s = None \<and> Start g \<le> s_start s \<and> s_start s + s_length s \<le> Start g + Length g) (p_slots p)"
proof -
  have sm: "Start g + sum_list (SlotLengths g) < W32"
    using assms geo_ok_small [OF assms] by (simp add: geo_ok_def)
  have v: "Geometry_Validate g = Ok ()"
    using sm assms foldl_uadd [of 0 "SlotLengths g"] by (simp add: Geometry_Validate_def geo_ok_def)
  have b: "Start g \<le> s_start s \<and> s_start s + s_length s \<le> Start g + Length g \<and> s_length s * bs < W32 \<and> s_journal s = None"
    if "s \<in> set (open_slots (Start g) (SlotLengths g))" for s
    using open_slots_bounds [OF sm that] assms by (auto simp: geo_ok_def list_all_iff)
  have "journal_geom bs N (s_start s) (s_length s)" if "s \<in> set (open_slots (Start g) (SlotLengths g))" for s
  proof -
    have "(s_start s + s_length s) * bs \<le> (Start g + Length g) * bs" using b [OF that] by (intro mult_le_mono1) simp
    then show ?thesis using assms b [OF that] unfolding geo_ok_def journal_geom_def by linarith
  qed
  then show ?thesis
    using v b open_slots_sorted [OF sm] by (simp add: OpenPartition_def part_wf_def list_all_iff)
qed


section \<open>A partition is a vector of registers\<close>

text \<open>
  A slot stands for the register \<open>a\<close> (data and revision) if the last record of its journal on the
  device holds it, and so does the journal in memory if it is open.
\<close>

definition slot_rep :: "nat \<Rightarrow> bytes list \<Rightarrow> Slot \<Rightarrow> bytes \<times> 32 word \<Rightarrow> bool" where
  "slot_rep bs bl s a \<longleftrightarrow>
     (\<exists>es q. region_inv bs (max_blocks bs (s_length s)) (jregion bl (s_start s) (s_length s)) es q \<and>
        (Data (last_entry es), Revision (last_entry es)) = a) \<and>
     (\<forall>j. s_journal s = Some j \<longrightarrow> journal_inv bs bl (s_start s) (s_length s) j \<and> journal_Data j = a)"

definition part_rep :: "nat \<Rightarrow> bytes list \<Rightarrow> Partition \<Rightarrow> (bytes \<times> 32 word) list \<Rightarrow> bool" where
  "part_rep bs bl p regs \<longleftrightarrow> part_wf bs (length bl) p \<and> list_all2 (slot_rep bs bl) (p_slots p) regs"

lemma slot_rep_journal:
  "journal_inv bs bl (s_start s) (s_length s) j \<Longrightarrow> s_journal s = Some j \<Longrightarrow> slot_rep bs bl s (journal_Data j)"
  unfolding slot_rep_def journal_inv_def journal_Data_def by fastforce

lemma slot_rep_frame:
  "slot_rep bs bl s a \<Longrightarrow> jregion bl' (s_start s) (s_length s) = jregion bl (s_start s) (s_length s) \<Longrightarrow>
    slot_rep bs bl' s a"
  by (simp add: slot_rep_def journal_inv_def)

lemma slot_rep_close: "slot_rep bs bl s a \<Longrightarrow> slot_rep bs bl (s\<lparr>s_journal := None\<rparr>) a"
  by (simp add: slot_rep_def)

lemma part_wf_update:
  assumes "part_wf bs N p" "i < length (p_slots p)"
    and "s_start s = s_start (p_slots p ! i)" "s_length s = s_length (p_slots p ! i)"
  shows "part_wf bs N (p\<lparr>p_slots := (p_slots p)[i := s]\<rparr>)"
  using assms unfolding part_wf_def by (simp add: sorted_wrt_iff_nth_less list_all_length nth_list_update)

lemma part_slots_disjoint:
  assumes "part_wf bs N p" "i < length (p_slots p)" "k < length (p_slots p)" "i \<noteq> k"
  shows "s_start (p_slots p ! i) + s_length (p_slots p ! i) \<le> s_start (p_slots p ! k) \<or>
    s_start (p_slots p ! k) + s_length (p_slots p ! k) \<le> s_start (p_slots p ! i)"
proof -
  have "sorted_wrt (\<lambda>s t. s_start s + s_length s \<le> s_start t) (p_slots p)"
    using assms(1) by (simp add: part_wf_def)
  note nth = sorted_wrt_nth_less [OF this]
  from assms(4) consider "i < k" | "k < i" by linarith
  then show ?thesis using nth [of i k] nth [of k i] assms(2,3) by cases simp_all
qed

lemma jregion_frame:
  assumes "length bl' = length bl" "start + len \<le> length bl"
    and "\<And>i. i < length bl \<Longrightarrow> i < a \<or> a + n \<le> i \<Longrightarrow> bl' ! i = bl ! i"
    and "a + n \<le> start \<or> start + len \<le> a"
  shows "jregion bl' start len = jregion bl start len"
  using assms by (intro nth_equalityI) (auto simp: jregion_def)

text \<open>A change of slot \<open>i\<close> and of its blocks changes register \<open>i\<close> only.\<close>

lemma part_rep_update:
  assumes "part_rep bs bl p regs" "i < length (p_slots p)" "length bl' = length bl"
    and "s_start s = s_start (p_slots p ! i)" "s_length s = s_length (p_slots p ! i)"
    and "\<And>k. k < length bl \<Longrightarrow> k < s_start s \<or> s_start s + s_length s \<le> k \<Longrightarrow> bl' ! k = bl ! k"
    and "slot_rep bs bl' s a"
  shows "part_rep bs bl' (p\<lparr>p_slots := (p_slots p)[i := s]\<rparr>) (regs[i := a])"
proof -
  have wf: "part_wf bs (length bl) p" and reps: "list_all2 (slot_rep bs bl) (p_slots p) regs"
    using assms(1) by (simp_all add: part_rep_def)
  have "slot_rep bs bl' ((p_slots p)[i := s] ! k) (regs[i := a] ! k)" if "k < length (p_slots p)" for k
  proof (cases "k = i")
    case True
    then show ?thesis using assms(2,7) reps by (simp add: list_all2_lengthD [symmetric])
  next
    case False
    have "journal_geom bs (length bl) (s_start (p_slots p ! k)) (s_length (p_slots p ! k))"
      using wf that by (simp add: part_wf_def list_all_length)
    then have "jregion bl' (s_start (p_slots p ! k)) (s_length (p_slots p ! k)) =
        jregion bl (s_start (p_slots p ! k)) (s_length (p_slots p ! k))"
      using part_slots_disjoint [OF wf assms(2) that] False assms(3-6)
      by (intro jregion_frame [where a = "s_start s" and n = "s_length s"]) (auto simp: journal_geom_def)
    then show ?thesis
      using slot_rep_frame [of bs bl "p_slots p ! k" "regs ! k" bl'] False reps that
      by (simp add: list_all2_conv_all_nth)
  qed
  then show ?thesis
    using part_wf_update [OF wf assms(2,4,5)] reps assms(3)
    by (simp add: part_rep_def list_all2_conv_all_nth)
qed

lemma part_rep_nth:
  assumes "part_rep bs bl p regs" "i < length (p_slots p)"
  shows "slot_rep bs bl (p_slots p ! i) (regs ! i)" "length regs = length (p_slots p)"
    "journal_geom bs (length bl) (s_start (p_slots p ! i)) (s_length (p_slots p ! i))"
  using assms by (simp_all add: part_rep_def part_wf_def list_all2_conv_all_nth list_all_length)

context block_device
begin

lemma Partition_Open_rep:
  assumes "ok d" "part_rep (BlockSize dev) (blocks d) p regs" "i < length (p_slots p)"
  shows "\<exists>p'. Partition_Open dev d p i = (Ok i, p') \<and> part_rep (BlockSize dev) (blocks d) p' regs \<and>
    length (p_slots p') = length (p_slots p) \<and> Slot_Read (p_slots p' ! i) = Ok (regs ! i) \<and>
    (\<forall>k. k \<noteq> i \<longrightarrow> p_slots p' ! k = p_slots p ! k)"
proof -
  let ?s = "p_slots p ! i"
  note R = part_rep_nth [OF assms(2,3)]
  have "\<exists>s. (\<exists>r. Slot_Open dev d ?s = (Ok r, s)) \<and> slot_rep (BlockSize dev) (blocks d) s (regs ! i) \<and>
      s_start s = s_start ?s \<and> s_length s = s_length ?s \<and> Slot_Read s = Ok (regs ! i)"
  proof (cases "s_journal ?s")
    case (Some j)
    then have "Slot_Read ?s = Ok (regs ! i)"
      using R(1) by (simp add: Slot_Read_def slot_rep_def journal_Data_def)
    then show ?thesis using R(1) Some by (auto simp: Slot_Open_def)
  next
    case None
    from R(1) obtain es q where
      inv: "region_inv (BlockSize dev) (max_blocks (BlockSize dev) (s_length ?s))
        (jregion (blocks d) (s_start ?s) (s_length ?s)) es q"
      and a: "(Data (last_entry es), Revision (last_entry es)) = regs ! i"
      unfolding slot_rep_def by blast
    from open_region [OF assms(1) R(3) inv] obtain j where
      j: "OpenJournal dev d (s_start ?s) (s_length ?s) = Ok j" "current j = last_entry es"
        "journal_inv (BlockSize dev) (blocks d) (s_start ?s) (s_length ?s) j" by blast
    let ?t = "?s\<lparr>s_journal := Some j\<rparr>"
    have "slot_rep (BlockSize dev) (blocks d) ?t (regs ! i)"
      using slot_rep_journal [of _ _ ?t j] j a by (simp add: journal_Data_def)
    then show ?thesis
      using None j a by (intro exI [of _ ?t]) (simp add: Slot_Open_def Slot_Read_def)
  qed
  then obtain s r where s: "Slot_Open dev d ?s = (Ok r, s)" "slot_rep (BlockSize dev) (blocks d) s (regs ! i)"
    "s_start s = s_start ?s" "s_length s = s_length ?s" "Slot_Read s = Ok (regs ! i)" by blast
  have "part_rep (BlockSize dev) (blocks d) (p\<lparr>p_slots := (p_slots p)[i := s]\<rparr>) (regs[i := regs ! i])"
    by (rule part_rep_update [OF assms(2,3) refl s(3,4) refl s(2)])
  then show ?thesis
    using s assms(3) by (simp add: Partition_Open_def)
qed

text \<open>
  A write through slot \<open>i\<close>: success stores the data with the next revision, a failure (that leaves
  no complete record behind) changes no register.
\<close>

lemma Slot_CheckAndWrite_rep:
  assumes "ok d" "part_rep (BlockSize dev) (blocks d) p regs" "i < length (p_slots p)"
    and "Slot_Read (p_slots p ! i) = Ok (x, rv)"
    and "Slot_CheckAndWrite dev d (p_slots p ! i) token data = (r, d', s')"
    and "safe_data (BlockSize dev) data" "rv + 1 \<noteq> 0"
    and "\<And>e j'. r = Err e \<Longrightarrow> s_journal s' = Some j' \<Longrightarrow> torn_visible (blocks d) (blocks d') (nextBlock j') data"
  shows "ok d' \<and> length (blocks d') = length (blocks d) \<and> (\<forall>y. r \<noteq> Panic y) \<and> (r = Ok () \<longrightarrow> token = rv) \<and>
    part_rep (BlockSize dev) (blocks d') (p\<lparr>p_slots := (p_slots p)[i := s']\<rparr>)
      (if r = Ok () then regs[i := (data, rv + 1)] else regs)"
proof -
  let ?s = "p_slots p ! i" and ?bs = "BlockSize dev"
  note R = part_rep_nth [OF assms(2,3)]
  from assms(4) obtain j where j: "s_journal ?s = Some j" "journal_Data j = (x, rv)"
    by (auto simp: Slot_Read_def journal_Data_def split: option.splits)
  have inv: "journal_inv ?bs (blocks d) (s_start ?s) (s_length ?s) j" and ri: "regs ! i = (x, rv)"
    using R(1) j by (auto simp: slot_rep_def)
  have rv: "Revision (current j) = rv" using j(2) by (simp add: journal_Data_def)
  have keep: "p\<lparr>p_slots := (p_slots p)[i := ?s]\<rparr> = p" by simp
  show ?thesis
  proof (cases "token = rv")
    case False
    then have "r = Err (Errorf ''invalid token, slot updated since then'' [])" "d' = d" "s' = ?s"
      using assms(5) j rv by (auto simp: Slot_CheckAndWrite_def)
    then show ?thesis using assms(1,2) keep by simp
  next
    case True
    obtain j' where u: "journal_Update dev d j data = (r, d', j')" "s' = ?s\<lparr>s_journal := Some j'\<rparr>"
      using assms(5) j True rv by (auto simp: Slot_CheckAndWrite_def split: prod.splits)
    note F = update_frame [OF assms(1) R(3) inv u(1)]
    have "journal_inv ?bs (blocks d') (s_start ?s) (s_length ?s) j' \<and>
        journal_Data j' = (if r = Ok () then (data, rv + 1) else (x, rv))"
    proof (cases r)
      case (Ok y)
      then show ?thesis
        using update_ok [OF assms(1) R(3) inv, of data d' j'] u(1) assms(6,7) rv by (simp add: journal_Data_def)
    next
      case (Err e)
      then show ?thesis
        using update_err [OF assms(1) R(3) inv, of data e d' j'] u assms(6-8) rv j(2) by (simp add: journal_Data_def)
    next
      case (Panic y)
      then show ?thesis using F by blast
    qed
    then have "slot_rep ?bs (blocks d') s' (if r = Ok () then (data, rv + 1) else (x, rv))"
      using slot_rep_journal [of ?bs "blocks d'" s' j'] u(2) by (simp split: if_splits)
    from part_rep_update [OF assms(2,3) _ _ _ _ this, of] F u(2)
    have "part_rep ?bs (blocks d') (p\<lparr>p_slots := (p_slots p)[i := s']\<rparr>)
        (regs[i := (if r = Ok () then (data, rv + 1) else (x, rv))])" by simp
    moreover have "regs[i := (x, rv)] = regs" using list_update_id [of regs i] ri by simp
    ultimately show ?thesis using F True by (cases "r = Ok ()") simp_all
  qed
qed

end


section \<open>Restarts, first use and erasure\<close>

definition part_shape :: "Partition \<Rightarrow> (nat \<times> nat) list" where
  "part_shape p = map (\<lambda>s. (s_start s, s_length s)) (p_slots p)"

lemma part_shape_eqD:
  assumes "part_shape p' = part_shape p"
  shows "length (p_slots p') = length (p_slots p)"
    "i < length (p_slots p) \<Longrightarrow> s_start (p_slots p' ! i) = s_start (p_slots p ! i)"
    "i < length (p_slots p) \<Longrightarrow> s_length (p_slots p' ! i) = s_length (p_slots p ! i)"
proof -
  show l: "length (p_slots p') = length (p_slots p)"
    using arg_cong [OF assms, of length] by (simp add: part_shape_def)
  assume "i < length (p_slots p)"
  with l arg_cong [OF assms, of "\<lambda>xs. xs ! i"]
  show "s_start (p_slots p' ! i) = s_start (p_slots p ! i)" "s_length (p_slots p' ! i) = s_length (p_slots p ! i)"
    by (simp_all add: part_shape_def)
qed

lemma part_shape_update:
  "i < length (p_slots p) \<Longrightarrow> s_start s = s_start (p_slots p ! i) \<Longrightarrow> s_length s = s_length (p_slots p ! i) \<Longrightarrow>
    part_shape (p\<lparr>p_slots := (p_slots p)[i := s]\<rparr>) = part_shape p"
  by (simp add: part_shape_def map_update) (metis (no_types, lifting) list_update_id nth_map)

lemma Slot_CheckAndWrite_shape:
  "Slot_CheckAndWrite dev d s token data = (r, d', s') \<Longrightarrow> s_start s' = s_start s \<and> s_length s' = s_length s"
  by (auto simp: Slot_CheckAndWrite_def split: option.splits if_splits prod.splits)

lemma Partition_Open_shape: "Partition_Open dev d p i = (r, p') \<Longrightarrow> part_shape p' = part_shape p"
  by (auto simp: Partition_Open_def Slot_Open_def split: if_splits option.splits res.splits intro!: part_shape_update)

text \<open>A partition opened anew stands for the registers the old one stood for.\<close>

lemma part_rep_reopen:
  assumes "part_rep bs bl p regs" "part_shape p' = part_shape p" "list_all (\<lambda>s. s_journal s = None) (p_slots p')"
  shows "part_rep bs bl p' regs"
proof -
  note S = part_shape_eqD [OF assms(2)]
  have "part_wf bs (length bl) p'"
    using assms(1) S unfolding part_rep_def part_wf_def
    by (simp add: list_all_length sorted_wrt_iff_nth_less)
  moreover have "list_all2 (slot_rep bs bl) (p_slots p') regs"
    using assms(1,3) S unfolding part_rep_def
    by (simp add: list_all2_conv_all_nth list_all_length slot_rep_def)
  ultimately show ?thesis by (simp add: part_rep_def)
qed

lemma part_rep_blank:
  assumes "part_wf bs (length bl) p" "48 \<le> bs" "\<forall>b \<in> set bl. length b = bs"
    and "list_all (\<lambda>s. s_journal s = None \<and> (\<forall>b \<in> set (jregion bl (s_start s) (s_length s)). no_magic b)) (p_slots p)"
  shows "part_rep bs bl p (replicate (length (p_slots p)) ([], 0))"
proof -
  have "slot_rep bs bl s ([], 0)" if "s \<in> set (p_slots p)" for s
  proof -
    let ?r = "jregion bl (s_start s) (s_length s)"
    have "set ?r \<subseteq> set bl" by (auto simp: jregion_def dest!: in_set_takeD in_set_dropD)
    moreover have nm: "s_journal s = None" "\<forall>b \<in> set ?r. no_magic b"
      using assms(4) that by (simp_all add: list_all_iff)
    ultimately have "\<forall>b \<in> set ?r. length b = bs \<and> no_magic b" using assms(3) by blast
    then have "region_inv bs (max_blocks bs (s_length s)) ?r [] (length ?r)"
      using assms(2) by (intro region_inv_empty) auto
    then show ?thesis
      unfolding slot_rep_def using nm(1)
      by (intro conjI exI [of _ "[]"] exI [of _ "length ?r"]) (simp_all add: last_entry_def zero_entry_def)
  qed
  then show ?thesis using assms(1) by (simp add: part_rep_def list_all2_conv_all_nth)
qed

text \<open>
  The states of a partition on a device, with the registers it stands for: opened on blocks without a
  record, then slots opened, written with and without success, and the whole partition opened
  again after a restart.
\<close>

inductive part_reach :: "'d BlockReaderWriter \<Rightarrow> ('d \<Rightarrow> bytes list) \<Rightarrow> ('d \<Rightarrow> bool) \<Rightarrow> Geometry \<Rightarrow>
    'd \<Rightarrow> Partition \<Rightarrow> (bytes \<times> 32 word) list \<Rightarrow> bool"
  for dev blocks ok geo where
  pr_init: "ok d \<Longrightarrow> geo_ok (BlockSize dev) (length (blocks d)) geo \<Longrightarrow>
    \<forall>b \<in> set (jregion (blocks d) (Start geo) (Length geo)). no_magic b \<Longrightarrow> OpenPartition geo = Ok p \<Longrightarrow>
    part_reach dev blocks ok geo d p (replicate (length (SlotLengths geo)) ([], 0))"
| pr_open: "part_reach dev blocks ok geo d p regs \<Longrightarrow> Partition_Open dev d p i = (r, p') \<Longrightarrow>
    part_reach dev blocks ok geo d p' regs"
| pr_write: "part_reach dev blocks ok geo d p regs \<Longrightarrow> i < length (p_slots p) \<Longrightarrow>
    Slot_CheckAndWrite dev d (p_slots p ! i) token data = (Ok (), d', s') \<Longrightarrow>
    safe_data (BlockSize dev) data \<Longrightarrow> snd (regs ! i) + 1 \<noteq> 0 \<Longrightarrow>
    part_reach dev blocks ok geo d' (p\<lparr>p_slots := (p_slots p)[i := s']\<rparr>) (regs[i := (data, snd (regs ! i) + 1)])"
| pr_failed: "part_reach dev blocks ok geo d p regs \<Longrightarrow> i < length (p_slots p) \<Longrightarrow>
    Slot_CheckAndWrite dev d (p_slots p ! i) token data = (Err e, d', s') \<Longrightarrow>
    safe_data (BlockSize dev) data \<Longrightarrow> snd (regs ! i) + 1 \<noteq> 0 \<Longrightarrow>
    \<forall>j'. s_journal s' = Some j' \<longrightarrow> torn_visible (blocks d) (blocks d') (nextBlock j') data \<Longrightarrow>
    part_reach dev blocks ok geo d' (p\<lparr>p_slots := (p_slots p)[i := s']\<rparr>) regs"
| pr_restart: "part_reach dev blocks ok geo d p regs \<Longrightarrow> OpenPartition geo = Ok p' \<Longrightarrow>
    part_reach dev blocks ok geo d p' regs"

definition geo_shape :: "Geometry \<Rightarrow> (nat \<times> nat) list" where
  "geo_shape geo = map (\<lambda>s. (s_start s, s_length s)) (open_slots (Start geo) (SlotLengths geo))"

lemma open_slots_closed: "s \<in> set (open_slots b ls) \<Longrightarrow> s_journal s = None"
  by (induction ls arbitrary: b) auto

lemma OpenPartition_shape:
  "OpenPartition geo = Ok p \<Longrightarrow> part_shape p = geo_shape geo \<and> list_all (\<lambda>s. s_journal s = None) (p_slots p)"
  by (auto simp: OpenPartition_def part_shape_def geo_shape_def list_all_iff open_slots_closed split: res.splits)

lemma jregion_sub:
  assumes "a \<le> start" "start + len \<le> a + n"
  shows "set (jregion bl start len) \<subseteq> set (jregion bl a n)"
proof -
  have "jregion bl start len = take len (drop (start - a) (jregion bl a n))"
    using assms by (simp add: jregion_def drop_take min_def)
  then show ?thesis by (metis set_drop_subset set_take_subset subset_trans)
qed

context block_device
begin

lemma part_reach_inv:
  "part_reach dev blocks ok geo d p regs \<Longrightarrow>
    ok d \<and> part_rep (BlockSize dev) (blocks d) p regs \<and> part_shape p = geo_shape geo"
proof (induction rule: part_reach.induct)
  case (pr_init d p)
  from OpenPartition_layout [OF pr_init(2)] pr_init(4)
  have L: "part_wf (BlockSize dev) (length (blocks d)) p" "length (p_slots p) = length (SlotLengths geo)"
    "list_all (\<lambda>s. s_journal s = None \<and> Start geo \<le> s_start s \<and> s_start s + s_length s \<le> Start geo + Length geo) (p_slots p)"
    by auto
  have "part_rep (BlockSize dev) (blocks d) p (replicate (length (p_slots p)) ([], 0))"
  proof (rule part_rep_blank [OF L(1)])
    show "48 \<le> BlockSize dev" using pr_init(2) by (simp add: geo_ok_def entryHeaderSize_def)
    show "\<forall>b \<in> set (blocks d). length b = BlockSize dev" using blocks_length [OF pr_init(1)] .
    show "list_all (\<lambda>s. s_journal s = None \<and> (\<forall>b \<in> set (jregion (blocks d) (s_start s) (s_length s)). no_magic b)) (p_slots p)"
      using L(3) pr_init(3) jregion_sub unfolding list_all_iff by blast
  qed
  then show ?case using pr_init(1,4) L(2) OpenPartition_shape by simp
next
  case (pr_open d p regs i r p')
  have "part_rep (BlockSize dev) (blocks d) p' regs"
  proof (cases "i < length (p_slots p)")
    case True
    then show ?thesis using Partition_Open_rep [of d p regs i] pr_open by auto
  next
    case False
    then have "p' = p" using pr_open(2) by (simp add: Partition_Open_def)
    then show ?thesis using pr_open by simp
  qed
  then show ?case using pr_open Partition_Open_shape by metis
next
  case (pr_write d p regs i token data d' s')
  have "\<exists>j. s_journal (p_slots p ! i) = Some j"
    using pr_write(3) by (auto simp: Slot_CheckAndWrite_def split: option.splits)
  then have rd: "Slot_Read (p_slots p ! i) = Ok (fst (regs ! i), snd (regs ! i))"
    using part_rep_nth(1) [of _ _ p regs i] pr_write by (auto simp: Slot_Read_def slot_rep_def journal_Data_def)
  show ?case
    using Slot_CheckAndWrite_rep [where regs = regs, OF _ _ pr_write(2) rd pr_write(3-5)] pr_write
      Slot_CheckAndWrite_shape [OF pr_write(3)] part_shape_update [OF pr_write(2)] by simp
next
  case (pr_failed d p regs i token data e d' s')
  have "\<exists>j. s_journal (p_slots p ! i) = Some j"
    using pr_failed(3) by (auto simp: Slot_CheckAndWrite_def split: option.splits)
  then have rd: "Slot_Read (p_slots p ! i) = Ok (fst (regs ! i), snd (regs ! i))"
    using part_rep_nth(1) [of _ _ p regs i] pr_failed by (auto simp: Slot_Read_def slot_rep_def journal_Data_def)
  show ?case
    using Slot_CheckAndWrite_rep [where regs = regs, OF _ _ pr_failed(2) rd pr_failed(3-5)] pr_failed
      Slot_CheckAndWrite_shape [OF pr_failed(3)] part_shape_update [OF pr_failed(2)] by simp
next
  case (pr_restart d p regs p')
  then show ?case using part_rep_reopen [of _ _ p regs p'] OpenPartition_shape [of geo p'] by simp
qed

lemma part_registers:
  assumes "part_reach dev blocks ok geo d p regs" "i < length (SlotLengths geo)"
  shows "\<exists>p'. Partition_Open dev d p i = (Ok i, p') \<and> Slot_Read (p_slots p' ! i) = Ok (regs ! i)"
proof -
  have "length (part_shape p) = length (geo_shape geo)" using part_reach_inv [OF assms(1)] by simp
  then have "length (p_slots p) = length (SlotLengths geo)" by (simp add: part_shape_def geo_shape_def)
  then show ?thesis using Partition_Open_rep [of d p regs i] part_reach_inv [OF assms(1)] assms(2) by auto
qed

end


text \<open>Erasure: on a device whose writes succeed, every register is empty afterwards, whatever the blocks held.\<close>

lemma zero_no_magic: "set b \<subseteq> {0} \<Longrightarrow> no_magic b"
proof -
  assume "set b \<subseteq> {0}"
  then have "set (take 4 b) \<subseteq> {0}" using set_take_subset by fastforce
  moreover have "\<not> set magic0 \<subseteq> {0}" by (simp add: magic0_def string_bytes_def)
  ultimately show ?thesis by (auto simp: no_magic_def)
qed

lemma zero_blocks: "0 < bs \<Longrightarrow> b \<in> set (to_blocks bs (replicate (k * bs) 0)) \<Longrightarrow> no_magic b"
proof (rule zero_no_magic)
  assume "0 < bs" "b \<in> set (to_blocks bs (replicate (k * bs) 0))"
  then have "set b \<subseteq> set (concat (to_blocks bs (replicate (k * bs) 0)))" by auto
  also have "\<dots> \<subseteq> {0}"
    using \<open>0 < bs\<close> by (auto simp: to_blocks_def concat_chunks pad_block_def split: if_splits)
  finally show "set b \<subseteq> {0}" .
qed

definition slot_blank :: "bytes list \<Rightarrow> Slot \<Rightarrow> bool" where
  "slot_blank bl s \<longleftrightarrow> s_journal s = None \<and> list_all no_magic (jregion bl (s_start s) (s_length s))"

context block_device
begin

lemma eraseSlot_blank:
  assumes "ok d" "part_wf (BlockSize dev) (length (blocks d)) p" "i < length (p_slots p)"
    and "0 < s_length (p_slots p ! i)" "s_length (p_slots p ! i) * BlockSize dev < W32 div 2"
    and "reliable dev blocks ok"
  shows "\<exists>d'. eraseSlot dev d p i = (Ok (), d', p\<lparr>p_slots := (p_slots p)[i := (p_slots p ! i)\<lparr>s_journal := None\<rparr>]\<rparr>) \<and>
    ok d' \<and> length (blocks d') = length (blocks d) \<and>
    list_all no_magic (jregion (blocks d') (s_start (p_slots p ! i)) (s_length (p_slots p ! i))) \<and>
    (\<forall>k < length (p_slots p). k \<noteq> i \<longrightarrow> jregion (blocks d') (s_start (p_slots p ! k)) (s_length (p_slots p ! k)) =
      jregion (blocks d) (s_start (p_slots p ! k)) (s_length (p_slots p ! k)))"
proof -
  let ?s = "p_slots p ! i" and ?bs = "BlockSize dev"
  let ?z = "replicate (s_length ?s * ?bs) 0 :: bytes"
  have g: "journal_geom ?bs (length (blocks d)) (s_start (p_slots p ! k)) (s_length (p_slots p ! k))"
    if "k < length (p_slots p)" for k using assms(2) that by (simp add: part_wf_def list_all_length)
  have u: "umul (s_length ?s) ?bs = s_length ?s * ?bs"
    using assms(5) by (intro umul_small) (simp add: W32_def)
  have nb: "nblocks ?bs (length ?z) = s_length ?s" using bs_pos by (simp add: nblocks_mult)
  have fit: "s_start ?s + nblocks ?bs (length ?z) \<le> length (blocks d)"
    unfolding nb using g [OF assms(3)] by (simp add: journal_geom_def)
  have ne: "?z \<noteq> []" using assms(4) bs_pos by simp
  from assms(6) assms(1) ne fit obtain n d' where w: "WriteBlocks dev d (s_start ?s) ?z = (Ok n, d')"
    unfolding reliable_def by blast
  from write_ok [OF assms(1) ne fit w] have ok': "ok d'"
    and bl': "blocks d' = overwrite (s_start ?s + 0) (to_blocks ?bs ?z) (blocks d)" by simp_all
  have lz: "length (to_blocks ?bs ?z) = s_length ?s" using length_to_blocks [OF bs_pos, of ?z] nb by simp
  have "jregion (blocks d') (s_start ?s) (s_length ?s) =
      overwrite 0 (to_blocks ?bs ?z) (jregion (blocks d) (s_start ?s) (s_length ?s))"
    unfolding bl' using g [OF assms(3)] lz by (intro jregion_overwrite) (simp_all add: journal_geom_def)
  then have "jregion (blocks d') (s_start ?s) (s_length ?s) = to_blocks ?bs ?z"
    using lz length_jregion [OF g [OF assms(3)]] by (simp add: overwrite_def)
  moreover have fr: "jregion (blocks d') (s_start (p_slots p ! k)) (s_length (p_slots p ! k)) =
      jregion (blocks d) (s_start (p_slots p ! k)) (s_length (p_slots p ! k))"
    if "k < length (p_slots p)" "k \<noteq> i" for k
    using part_slots_disjoint [OF assms(2,3) that(1)] that(2) g [OF that(1)]
      write_length [OF assms(1) ne fit w] write_frame [OF assms(1) ne fit w, unfolded nb]
    by (intro jregion_frame [where a = "s_start ?s" and n = "s_length ?s"]) (auto simp: journal_geom_def)
  ultimately show ?thesis
    using w u ok' assms(3,5) zero_blocks [OF bs_pos] write_length [OF assms(1) ne fit w]
    by (intro exI [of _ d']) (simp add: eraseSlot_def Let_def list_all_iff)
qed

lemma erase_loop_blank:
  assumes "reliable dev blocks ok"
  shows "ok d \<Longrightarrow> part_wf (BlockSize dev) (length (blocks d)) p \<Longrightarrow> i + n = length (p_slots p) \<Longrightarrow>
    list_all (\<lambda>s. 0 < s_length s \<and> s_length s * BlockSize dev < W32 div 2) (p_slots p) \<Longrightarrow>
    \<forall>k < i. slot_blank (blocks d) (p_slots p ! k) \<Longrightarrow>
    \<exists>d' p'. erase_loop dev d p i n = (Ok (), d', p') \<and> ok d' \<and> part_wf (BlockSize dev) (length (blocks d')) p' \<and>
      length (p_slots p') = length (p_slots p) \<and> list_all (slot_blank (blocks d')) (p_slots p')"
proof (induction n arbitrary: d p i)
  case 0
  then show ?case by (auto simp: list_all_length)
next
  case (Suc n)
  have i: "i < length (p_slots p)" using Suc.prems(3) by simp
  let ?p = "p\<lparr>p_slots := (p_slots p)[i := (p_slots p ! i)\<lparr>s_journal := None\<rparr>]\<rparr>"
  have len: "0 < s_length (p_slots p ! i)" "s_length (p_slots p ! i) * BlockSize dev < W32 div 2"
    using Suc.prems(4) i by (simp_all add: list_all_length)
  from eraseSlot_blank [OF Suc.prems(1,2) i len assms] obtain d1 where
    e: "eraseSlot dev d p i = (Ok (), d1, ?p)" "ok d1" "length (blocks d1) = length (blocks d)"
    "list_all no_magic (jregion (blocks d1) (s_start (p_slots p ! i)) (s_length (p_slots p ! i)))"
    "\<forall>k < length (p_slots p). k \<noteq> i \<longrightarrow> jregion (blocks d1) (s_start (p_slots p ! k)) (s_length (p_slots p ! k)) =
      jregion (blocks d) (s_start (p_slots p ! k)) (s_length (p_slots p ! k))" by blast
  have blank: "\<forall>k < Suc i. slot_blank (blocks d1) (p_slots ?p ! k)"
    using Suc.prems(5) e(4,5) i by (auto simp: slot_blank_def less_Suc_eq)
  have wf: "part_wf (BlockSize dev) (length (blocks d1)) ?p"
    using part_wf_update [OF Suc.prems(2) i] e(3) by simp
  have ls: "list_all (\<lambda>s. 0 < s_length s \<and> s_length s * BlockSize dev < W32 div 2) (p_slots ?p)"
    using Suc.prems(4) i by (simp add: list_all_length nth_list_update)
  have "Suc i + n = length (p_slots ?p)" using Suc.prems(3) by simp
  from Suc.IH [OF e(2) wf this ls blank] show ?case using e(1) by simp
qed

lemma Erase_blank:
  assumes "reliable dev blocks ok"
    and "ok d" "part_wf (BlockSize dev) (length (blocks d)) p" "48 \<le> BlockSize dev"
    and "list_all (\<lambda>s. 0 < s_length s \<and> s_length s * BlockSize dev < W32 div 2) (p_slots p)"
  shows "\<exists>d' p'. Partition_Erase dev d p = (Ok (), d', p') \<and> ok d' \<and>
    part_rep (BlockSize dev) (blocks d') p' (replicate (length (p_slots p)) ([], 0))"
proof -
  from erase_loop_blank [OF assms(1-3) _ assms(5), of 0 "length (p_slots p)"] obtain d' p' where
    e: "erase_loop dev d p 0 (length (p_slots p)) = (Ok (), d', p')" "ok d'"
      "part_wf (BlockSize dev) (length (blocks d')) p'" "length (p_slots p') = length (p_slots p)"
      "list_all (slot_blank (blocks d')) (p_slots p')" by auto
  have "part_rep (BlockSize dev) (blocks d') p' (replicate (length (p_slots p')) ([], 0))"
    using e(5) by (intro part_rep_blank [OF e(3) assms(4) blocks_length [OF e(2)]])
      (simp add: slot_blank_def list_all_iff)
  then show ?thesis using e by (simp add: Partition_Erase_def)
qed

end

end
