(* ===== verification/Persistence.thy ===== *)
theory Persistence
  imports Slots "HOL-Library.AList"
begin

text \<open>
  The witness persistence of \<open>storage/persistence.go\<close>: one slot per log for its latest checkpoint,
  and a directory in slot 0 that maps log IDs to slots.

  The YAML encodings and \<open>logfmt.ID\<close> are third-party code and a parameter (\<open>codec\<close>); the locale
  \<open>directory_codec\<close> says what the code relies on. A Go map is an association list in the order in
  which a \<open>range\<close> over it goes.
\<close>

section \<open>The operations\<close>

type_synonym slotMap = "(string \<times> nat) list"

record codec =
  yaml_MarshalMap :: "slotMap \<Rightarrow> bytes res"
  yaml_UnmarshalMap :: "bytes \<Rightarrow> slotMap \<Rightarrow> go_error option \<times> slotMap"
  yaml_UnmarshalCheckpoint :: "bytes \<Rightarrow> bytes res"
  logfmt_ID :: "string \<Rightarrow> string"

record SlotPersistence =
  part :: Partition
  directorySlot :: "nat option"
  directoryWriteToken :: "32 word"
  idToSlot :: slotMap
  freeSlots :: "nat list"

definition mappingConfigSlot :: nat where
  "mappingConfigSlot = 0"

definition rawRecordMagic :: bytes where
  "rawRecordMagic = 1 # string_bytes ''RAW''"

definition NewSlotPersistence :: "Partition \<Rightarrow> SlotPersistence" where
  "NewSlotPersistence p =
     \<lparr>part = p, directorySlot = None, directoryWriteToken = 0, idToSlot = [], freeSlots = []\<rparr>"

text \<open>The loop of \<open>populateMap\<close> that marks the slots in use.\<close>

fun mark_used :: "nat list \<Rightarrow> bool list \<Rightarrow> bool list res" where
  "mark_used [] slotState = Ok slotState"
| "mark_used (idx # is) slotState =
     (if idx = mappingConfigSlot
      then Err (Errorf ''internal-error, reserved slot 0 has been used'' [])
      else if length slotState \<le> idx then Panic IndexOutOfRange
      else mark_used is (slotState[idx := True]))"

definition populateMap :: "codec \<Rightarrow> SlotPersistence \<Rightarrow> unit res \<times> SlotPersistence" where
  "populateMap cx p =
     (case directorySlot p of
        None \<Rightarrow> (Panic NilDeref, p)
      | Some s \<Rightarrow>
          (case Slot_Read (p_slots (part p) ! s) of
             Err e \<Rightarrow> (Err (Errorf ''failed to read persistence mapping: %v'' [e]), p)
           | Panic x \<Rightarrow> (Panic x, p)
           | Ok (b, t) \<Rightarrow>
               (case yaml_UnmarshalMap cx b (idToSlot p) of
                  (Some e, m) \<Rightarrow>
                    (Err (Errorf ''failed to unmarshal persistence mapping: %v'' [e]), p\<lparr>idToSlot := m\<rparr>)
                | (None, m) \<Rightarrow>
                    let p' = p\<lparr>idToSlot := m, directoryWriteToken := t\<rparr>;
                        n = NumSlots (part p)
                    in case mark_used (map snd m) (replicate n False) of
                         Err e \<Rightarrow> (Err e, p')
                       | Panic x \<Rightarrow> (Panic x, p')
                       | Ok slotState \<Rightarrow>
                           if n \<le> mappingConfigSlot then (Panic IndexOutOfRange, p')
                           else
                             let st = slotState[mappingConfigSlot := True]
                             in (Ok (), p'\<lparr>freeSlots := filter (\<lambda>idx. \<not> st ! idx) [0 ..< n]\<rparr>))))"

definition Init :: "'d BlockReaderWriter \<Rightarrow> codec \<Rightarrow> 'd \<Rightarrow> SlotPersistence \<Rightarrow> unit res \<times> SlotPersistence" where
  "Init dev cx d p =
     (case Partition_Open dev d (part p) mappingConfigSlot of
        (Err e, pt) \<Rightarrow> (Err (Errorf ''failed to open mapping slot: %v'' [e]), p\<lparr>part := pt\<rparr>)
      | (Panic x, pt) \<Rightarrow> (Panic x, p\<lparr>part := pt\<rparr>)
      | (Ok s, pt) \<Rightarrow>
          (case populateMap cx (p\<lparr>part := pt, directorySlot := Some s\<rparr>) of
             (Err e, p') \<Rightarrow> (Err (Errorf ''failed to populate logID -> slot map: %v'' [e]), p')
           | r \<Rightarrow> r))"

definition marshalCheckpoint :: "bytes \<Rightarrow> bytes" where
  "marshalCheckpoint cpRaw = rawRecordMagic @ cpRaw"

definition unmarshalCheckpoint :: "codec \<Rightarrow> bytes \<Rightarrow> bytes res" where
  "unmarshalCheckpoint cx b =
     (if take (length rawRecordMagic) b = rawRecordMagic then Ok (drop (length rawRecordMagic) b)
      else case yaml_UnmarshalCheckpoint cx b of
             Err e \<Rightarrow> Err (Errorf ''failed to unmarshal data: %v'' [e])
           | r \<Rightarrow> r)"

text \<open>A write through a slot reference, in the state of the persistence.\<close>

definition slot_CheckAndWrite :: "'d BlockReaderWriter \<Rightarrow> 'd \<Rightarrow> SlotPersistence \<Rightarrow> nat \<Rightarrow> 32 word \<Rightarrow> bytes \<Rightarrow>
    unit res \<times> 'd \<times> SlotPersistence" where
  "slot_CheckAndWrite dev d p s token b =
     (case Slot_CheckAndWrite dev d (p_slots (part p) ! s) token b of
        (r, d', s') \<Rightarrow> (r, d', p\<lparr>part := (part p)\<lparr>p_slots := (p_slots (part p))[s := s']\<rparr>\<rparr>))"

definition storeDirectory :: "'d BlockReaderWriter \<Rightarrow> codec \<Rightarrow> 'd \<Rightarrow> SlotPersistence \<Rightarrow>
    unit res \<times> 'd \<times> SlotPersistence" where
  "storeDirectory dev cx d p =
     (case yaml_MarshalMap cx (idToSlot p) of
        Err e \<Rightarrow> (Err (Errorf ''failed to marshal mapping: %v'' [e]), d, p)
      | Panic x \<Rightarrow> (Panic x, d, p)
      | Ok smRaw \<Rightarrow>
          (case directorySlot p of
             None \<Rightarrow> (Panic NilDeref, d, p)
           | Some s \<Rightarrow>
               (case slot_CheckAndWrite dev d p s (directoryWriteToken p) smRaw of
                  (Err e, d', p') \<Rightarrow> (Err (Errorf ''failed to store mapping: %v'' [e]), d', p')
                | (Panic x, d', p') \<Rightarrow> (Panic x, d', p')
                | (Ok _, d', p') \<Rightarrow>
                    (Ok (), d', p'\<lparr>directoryWriteToken := directoryWriteToken p' + 1\<rparr>))))"

definition addLog :: "'d BlockReaderWriter \<Rightarrow> codec \<Rightarrow> 'd \<Rightarrow> SlotPersistence \<Rightarrow> string \<Rightarrow>
    nat res \<times> 'd \<times> SlotPersistence" where
  "addLog dev cx d p logID =
     (case map_of (idToSlot p) logID of
        Some idx \<Rightarrow> (Ok idx, d, p)
      | None \<Rightarrow>
          (case freeSlots p of
             [] \<Rightarrow> (Err (Errorf ''no free slot available'' []), d, p)
           | f # fs \<Rightarrow>
               (case storeDirectory dev cx d
                       (p\<lparr>freeSlots := fs, idToSlot := AList.update logID f (idToSlot p)\<rparr>) of
                  (Err e, d', p') \<Rightarrow> (Err (Errorf ''failed to storeMap: %v'' [e]), d', p')
                | (Panic x, d', p') \<Rightarrow> (Panic x, d', p')
                | (Ok _, d', p') \<Rightarrow> (Ok f, d', p'))))"

definition logSlot :: "'d BlockReaderWriter \<Rightarrow> codec \<Rightarrow> 'd \<Rightarrow> SlotPersistence \<Rightarrow> string \<Rightarrow> bool \<Rightarrow>
    nat res \<times> 'd \<times> SlotPersistence" where
  "logSlot dev cx d p logID create =
     (case map_of (idToSlot p) logID of
        Some i \<Rightarrow> (Ok i, d, p)
      | None \<Rightarrow>
          if \<not> create then (Err (StatusError ''NotFound'' ''no slot for log''), d, p)
          else
            (case addLog dev cx d p logID of
               (Err e, d', p') \<Rightarrow> (Err (Errorf ''unable to assign slot for log ID %q: %v'' [e]), d', p')
             | r \<Rightarrow> r))"

definition Latest :: "'d BlockReaderWriter \<Rightarrow> codec \<Rightarrow> 'd \<Rightarrow> SlotPersistence \<Rightarrow> string \<Rightarrow>
    bytes res \<times> 'd \<times> SlotPersistence" where
  "Latest dev cx d p origin =
     (case logSlot dev cx d p (logfmt_ID cx origin) False of
        (Err e, d1, p1) \<Rightarrow> (Err e, d1, p1)
      | (Panic x, d1, p1) \<Rightarrow> (Panic x, d1, p1)
      | (Ok i, d1, p1) \<Rightarrow>
          (case Partition_Open dev d1 (part p1) i of
             (Err e, pt) \<Rightarrow>
               (Err (Errorf ''internal error opening slot %d associated with log ID %q: %v'' [e]), d1, p1\<lparr>part := pt\<rparr>)
           | (Panic x, pt) \<Rightarrow> (Panic x, d1, p1\<lparr>part := pt\<rparr>)
           | (Ok s, pt) \<Rightarrow>
               let p2 = p1\<lparr>part := pt\<rparr>
               in case Slot_Read (p_slots pt ! s) of
                    Err e \<Rightarrow> (Err (Errorf ''failed to read data: %v'' [e]), d1, p2)
                  | Panic x \<Rightarrow> (Panic x, d1, p2)
                  | Ok (b, _) \<Rightarrow>
                      if b = [] then (Err (StatusError ''NotFound'' ''no checkpoint for log''), d1, p2)
                      else (unmarshalCheckpoint cx b, d1, p2)))"

text \<open>
  \<open>Update\<close> up to its call of \<open>CheckAndWrite\<close>: the slot, the token of the read and the bytes to
  write. No lock is held from here to the write.
\<close>

definition Update_prepare :: "'d BlockReaderWriter \<Rightarrow> codec \<Rightarrow> 'd \<Rightarrow> SlotPersistence \<Rightarrow> string \<Rightarrow>
    (bytes \<Rightarrow> bytes res) \<Rightarrow> (nat \<times> 32 word \<times> bytes) res \<times> 'd \<times> SlotPersistence" where
  "Update_prepare dev cx d p origin f =
     (case logSlot dev cx d p (logfmt_ID cx origin) True of
        (Err e, d1, p1) \<Rightarrow> (Err e, d1, p1)
      | (Panic x, d1, p1) \<Rightarrow> (Panic x, d1, p1)
      | (Ok i, d1, p1) \<Rightarrow>
          (case Partition_Open dev d1 (part p1) i of
             (Err e, pt) \<Rightarrow>
               (Err (Errorf ''internal error opening slot %d associated with log ID %q: %v'' [e]), d1, p1\<lparr>part := pt\<rparr>)
           | (Panic x, pt) \<Rightarrow> (Panic x, d1, p1\<lparr>part := pt\<rparr>)
           | (Ok s, pt) \<Rightarrow>
               let p2 = p1\<lparr>part := pt\<rparr>
               in case Slot_Read (p_slots pt ! s) of
                    Err e \<Rightarrow> (Err (Errorf ''failed to read data: %v'' [e]), d1, p2)
                  | Panic x \<Rightarrow> (Panic x, d1, p2)
                  | Ok (b, t) \<Rightarrow>
                      (case unmarshalCheckpoint cx b of
                         Err e \<Rightarrow> (Err (Errorf ''unmarshalCheckpoint: %v'' [e]), d1, p2)
                       | Panic x \<Rightarrow> (Panic x, d1, p2)
                       | Ok currCP \<Rightarrow>
                           (case f currCP of
                              Err e \<Rightarrow> (Err e, d1, p2)
                            | Panic x \<Rightarrow> (Panic x, d1, p2)
                            | Ok newCP \<Rightarrow> (Ok (s, t, marshalCheckpoint newCP), d1, p2)))))"

definition Update_commit :: "'d BlockReaderWriter \<Rightarrow> 'd \<Rightarrow> SlotPersistence \<Rightarrow> nat \<times> 32 word \<times> bytes \<Rightarrow>
    unit res \<times> 'd \<times> SlotPersistence" where
  "Update_commit dev d p w =
     (case w of (s, t, b) \<Rightarrow>
        (case slot_CheckAndWrite dev d p s t b of
           (Err e, d', p') \<Rightarrow> (Err (Errorf ''failed to write data: %v'' [e]), d', p')
         | r \<Rightarrow> r))"

definition Update :: "'d BlockReaderWriter \<Rightarrow> codec \<Rightarrow> 'd \<Rightarrow> SlotPersistence \<Rightarrow> string \<Rightarrow>
    (bytes \<Rightarrow> bytes res) \<Rightarrow> unit res \<times> 'd \<times> SlotPersistence" where
  "Update dev cx d p origin f =
     (case Update_prepare dev cx d p origin f of
        (Err e, d', p') \<Rightarrow> (Err e, d', p')
      | (Panic x, d', p') \<Rightarrow> (Panic x, d', p')
      | (Ok w, d', p') \<Rightarrow> Update_commit dev d' p' w)"

end
