(* ===== verification/PersistenceSpec.thy ===== *)
theory PersistenceSpec
  imports Persistence
begin

text \<open>
  What the persistence promises: it is a map from log IDs to the last checkpoint stored for the log,
  with atomic updates. A restart brings back the logs of the directory that was last stored, with what was last
  written to their slots, also after failed writes of checkpoints and of the directory.
\<close>

section \<open>What is expected of the encodings\<close>

text \<open>A log ID is a string of hexadecimal digits.\<close>

definition is_hex :: "char \<Rightarrow> bool" where
  "is_hex c \<longleftrightarrow> c \<in> set ''0123456789abcdef''"

definition id_ok :: "string \<Rightarrow> bool" where
  "id_ok s \<longleftrightarrow> list_all is_hex s"

definition yaml_chars :: bytes where
  "yaml_chars = string_bytes ''0123456789abcdef: \"'' @ [10]"

text \<open>
  The YAML of a map from log IDs to slot numbers decodes (into an empty map) to the same map and
  consists of hexadecimal digits, blanks, newlines, colons and quotes; an empty document leaves its
  target alone; \<open>logfmt.ID\<close> returns hexadecimal digits.
\<close>

locale directory_codec =
  fixes cx :: codec
  assumes marshal_map: "distinct (map fst m) \<Longrightarrow> list_all (\<lambda>(k, i). id_ok k \<and> i < W32) m \<Longrightarrow>
      \<exists>b m'. yaml_MarshalMap cx m = Ok b \<and> set b \<subseteq> set yaml_chars \<and>
        yaml_UnmarshalMap cx b [] = (None, m') \<and> map_of m' = map_of m \<and> distinct (map fst m')"
    and unmarshal_empty: "yaml_UnmarshalMap cx [] m = (None, m)"
    and checkpoint_empty: "yaml_UnmarshalCheckpoint cx [] = Ok []"
    and logfmt_id_ok: "id_ok (logfmt_ID cx origin)"

lemma yaml_safe: "set b \<subseteq> set yaml_chars \<Longrightarrow> safe_data bs b"
proof -
  assume b: "set b \<subseteq> set yaml_chars"
  have T: "84 \<in> set magic0" "84 \<notin> set yaml_chars"
    by (simp_all add: magic0_def yaml_chars_def string_bytes_def)
  have "no_magic c" if "c \<in> set (chunks bs (drop (bs - entryHeaderSize) b))" for c
  proof -
    have "set c \<subseteq> set (concat (chunks bs (drop (bs - entryHeaderSize) b)))"
      unfolding set_concat using that by blast
    also have "\<dots> \<subseteq> set b" unfolding concat_chunks by (rule set_drop_subset)
    finally have "84 \<notin> set c" using b T(2) by blast
    then show ?thesis using T(1) unfolding no_magic_def by (metis in_set_takeD)
  qed
  then show ?thesis by (simp add: safe_data_def list_all_iff)
qed


section \<open>A line-based encoding\<close>

text \<open>
  An encoding that meets \<open>directory_codec\<close>, for evaluating the model: a line \<open>id:11...1\<close> per entry with
  the slot number in unary, and no legacy checkpoints.
\<close>

fun line_marshal :: "slotMap \<Rightarrow> bytes" where
  "line_marshal [] = []"
| "line_marshal ((k, i) # m) = string_bytes k @ of_char CHR '':'' # replicate i (of_char CHR ''1'') @ 10 # line_marshal m"

function line_parse :: "bytes \<Rightarrow> slotMap" where
  "line_parse b =
     (if b = [] then []
      else
        let k = takeWhile (\<lambda>x. x \<noteq> of_char CHR '':'') b;
            r = drop (Suc (length k)) b;
            v = takeWhile (\<lambda>x. x \<noteq> 10) r
        in (map (\<lambda>x. char_of (unat x)) k, length v) # line_parse (drop (Suc (length v)) r))"
  by pat_completeness auto
termination
  by (relation "measure length") (auto simp: Let_def)

declare line_parse.simps [simp del]

definition hex_digit :: "nat \<Rightarrow> char" where
  "hex_digit n = ''0123456789abcdef'' ! (n mod 16)"

definition line_codec :: codec where
  "line_codec =
     \<lparr>yaml_MarshalMap = (\<lambda>m. Ok (line_marshal m)),
      yaml_UnmarshalMap = (\<lambda>b m. (None, foldl (\<lambda>m (k, i). AList.update k i m) m (line_parse b))),
      yaml_UnmarshalCheckpoint = (\<lambda>b. if b = [] then Ok [] else Err (Errorf ''yaml: cannot unmarshal'' [])),
      logfmt_ID = (\<lambda>s. concat (map (\<lambda>c. [hex_digit (of_char c div 16), hex_digit (of_char c)]) s))\<rparr>"

lemma hex_chars: "list_all (\<lambda>c. (of_char c :: byte) \<noteq> of_char CHR '':'' \<and> char_of (unat (of_char c :: byte)) = c \<and>
    of_char c \<in> set yaml_chars) ''0123456789abcdef''"
  by code_simp

lemma id_ok_chars:
  assumes "id_ok k" "c \<in> set k"
  shows "(of_char c :: byte) \<noteq> of_char CHR '':''" "char_of (unat (of_char c :: byte)) = c"
    "(of_char c :: byte) \<in> set yaml_chars"
proof -
  have "c \<in> set ''0123456789abcdef''" using assms unfolding id_ok_def is_hex_def list_all_iff by blast
  with hex_chars show "(of_char c :: byte) \<noteq> of_char CHR '':''" "char_of (unat (of_char c :: byte)) = c"
    "(of_char c :: byte) \<in> set yaml_chars" unfolding list_all_iff by blast+
qed

lemma line_parse_marshal:
  "list_all (\<lambda>(k, i). id_ok k \<and> i < W32) m \<Longrightarrow> line_parse (line_marshal m) = m"
proof (induction m)
  case (Cons a m)
  obtain k i where a: "a = (k, i)" by fastforce
  then have k: "id_ok k" using Cons.prems by simp
  let ?r = "replicate i (of_char CHR ''1'') @ (10 :: byte) # line_marshal m"
  have tk: "takeWhile (\<lambda>x. x \<noteq> of_char CHR '':'') (string_bytes k @ of_char CHR '':'' # ?r) = string_bytes k"
    using id_ok_chars(1) [OF k] by (subst takeWhile_append2) (auto simp: string_bytes_def)
  have tr: "takeWhile (\<lambda>x. x \<noteq> 10) ?r = replicate i (of_char CHR ''1'')"
    by (subst takeWhile_append2) auto
  have "map (\<lambda>x. char_of (unat x)) (string_bytes k) = k"
    using id_ok_chars(2) [OF k] by (simp add: string_bytes_def map_idI)
  with Cons tk tr show ?case
    by (simp add: a line_parse.simps [of "string_bytes k @ _"] Let_def del: takeWhile_append2)
qed (simp add: line_parse.simps)

lemma fold_update_distinct:
  "distinct (map fst m) \<Longrightarrow> distinct (map fst m0) \<Longrightarrow> fst ` set m \<inter> fst ` set m0 = {} \<Longrightarrow>
    foldl (\<lambda>m (k, i). AList.update k i m) m0 m = m0 @ m"
proof (induction m arbitrary: m0)
  case (Cons a m)
  obtain k i where a: "a = (k, i)" by fastforce
  have up: "AList.update k i m0 = m0 @ [(k, i)]"
    using Cons.prems(3) a by (induction m0) auto
  show ?case using Cons.IH [of "m0 @ [(k, i)]"] Cons.prems by (auto simp: a up)
qed simp

lemma line_marshal_chars:
  "list_all (\<lambda>(k, i). id_ok k \<and> i < W32) m \<Longrightarrow> set (line_marshal m) \<subseteq> set yaml_chars"
proof (induction m)
  case (Cons a m)
  obtain k i where a: "a = (k, i)" by fastforce
  have "set (string_bytes k) \<subseteq> set yaml_chars"
    using Cons.prems id_ok_chars(3) by (auto simp: a string_bytes_def)
  moreover have "of_char CHR '':'' \<in> set yaml_chars" "of_char CHR ''1'' \<in> set yaml_chars" "10 \<in> set yaml_chars"
    by (simp_all add: yaml_chars_def string_bytes_def)
  ultimately show ?case using Cons by (auto simp: a)
qed simp

lemma hex_digit_ok: "is_hex (hex_digit n)"
  unfolding hex_digit_def is_hex_def by (intro nth_mem) simp

interpretation lines: directory_codec line_codec
proof
  fix m :: slotMap
  assume m: "distinct (map fst m)" "list_all (\<lambda>(k, i). id_ok k \<and> i < W32) m"
  then show "\<exists>b m'. yaml_MarshalMap line_codec m = Ok b \<and> set b \<subseteq> set yaml_chars \<and>
      yaml_UnmarshalMap line_codec b [] = (None, m') \<and> map_of m' = map_of m \<and> distinct (map fst m')"
    using fold_update_distinct [of m "[]"] line_marshal_chars [OF m(2)]
    by (simp add: line_codec_def line_parse_marshal)
next
  fix origin
  show "id_ok (logfmt_ID line_codec origin)"
    by (auto simp: line_codec_def id_ok_def list_all_iff hex_digit_ok)
qed (simp_all add: line_codec_def line_parse.simps)


section \<open>The invariant\<close>

text \<open>
  The directory in memory: log IDs have different slots, none of them slot 0, and the free slots are
  the others.
\<close>

definition dir_ok :: "nat \<Rightarrow> slotMap \<Rightarrow> nat list \<Rightarrow> bool" where
  "dir_ok n m free \<longleftrightarrow> distinct (map fst m) \<and> distinct (map snd m) \<and> distinct free \<and>
     set (map snd m) \<union> set free = {1 ..< n} \<and> set (map snd m) \<inter> set free = {} \<and> list_all (\<lambda>(k, i). id_ok k) m"

text \<open>
  The partition stands for the registers \<open>regs\<close>, the directory slot is open and the write token is
  its revision.
\<close>

definition pers_inv :: "nat \<Rightarrow> bytes list \<Rightarrow> SlotPersistence \<Rightarrow> (bytes \<times> 32 word) list \<Rightarrow> bool" where
  "pers_inv bs bl p regs \<longleftrightarrow> part_rep bs bl (part p) regs \<and> 0 < length regs \<and> length regs < W32 \<and>
     directorySlot p = Some 0 \<and> Slot_Read (p_slots (part p) ! 0) = Ok (regs ! 0) \<and>
     directoryWriteToken p = snd (regs ! 0) \<and> dir_ok (length regs) (idToSlot p) (freeSlots p)"

text \<open>The registers of free slots were never written.\<close>

definition free_blank :: "SlotPersistence \<Rightarrow> (bytes \<times> 32 word) list \<Rightarrow> bool" where
  "free_blank p regs \<longleftrightarrow> list_all (\<lambda>i. regs ! i = ([], 0)) (freeSlots p)"

text \<open>The directory on the device is the one in memory.\<close>

definition dir_stored :: "codec \<Rightarrow> (bytes \<times> 32 word) list \<Rightarrow> slotMap \<Rightarrow> bool" where
  "dir_stored cx regs m \<longleftrightarrow>
     (\<exists>m'. yaml_UnmarshalMap cx (fst (regs ! 0)) [] = (None, m') \<and> map_of m' = map_of m \<and> distinct (map fst m'))"

text \<open>The register of a log, the abstract state of the persistence.\<close>

definition log_reg :: "SlotPersistence \<Rightarrow> (bytes \<times> 32 word) list \<Rightarrow> string \<Rightarrow> (bytes \<times> 32 word) option" where
  "log_reg p regs lid = map_option (\<lambda>i. regs ! i) (map_of (idToSlot p) lid)"

lemma dir_ok_slot: "dir_ok n m free \<Longrightarrow> map_of m lid = Some i \<Longrightarrow> 0 < i \<and> i < n"
proof -
  assume d: "dir_ok n m free" and l: "map_of m lid = Some i"
  from l have "i \<in> set (map snd m)" by (force dest: map_of_SomeD)
  with d have "i \<in> {1 ..< n}" unfolding dir_ok_def by blast
  then show ?thesis by simp
qed

lemma dir_ok_inj:
  assumes "dir_ok n m free" "map_of m a = Some i" "map_of m b = Some i" shows "a = b"
proof -
  have "(a, i) \<in> set m" "(b, i) \<in> set m" using assms by (auto dest: map_of_SomeD)
  moreover have "inj_on snd (set m)" using assms(1) by (simp add: dir_ok_def distinct_map)
  ultimately show ?thesis using inj_onD [of snd "set m" "(a, i)" "(b, i)"] by simp
qed

lemma dir_ok_add:
  assumes "dir_ok n m (f # fs)" "map_of m lid = None" "id_ok lid"
  shows "dir_ok n (AList.update lid f m) fs"
proof -
  have up: "AList.update lid f m = m @ [(lid, f)]"
    using assms(2) by (induction m) (auto split: if_splits)
  have "lid \<notin> set (map fst m)" using assms(2) by (simp add: map_of_eq_None_iff)
  then show ?thesis using assms(1,3) by (auto simp: dir_ok_def up)
qed

lemma same_map_set:
  "map_of m' = map_of m \<Longrightarrow> distinct (map fst m') \<Longrightarrow> distinct (map fst m) \<Longrightarrow> set m' = set m"
  by (simp add: map_of_inject_set)

lemma dir_ok_same:
  assumes "dir_ok n m free" "map_of m' = map_of m" "distinct (map fst m')"
    and "distinct free'" "set free' = set free"
  shows "dir_ok n m' free'"
proof -
  have eq: "set m' = set m" using same_map_set [OF assms(2,3)] assms(1) by (simp add: dir_ok_def)
  have "inj_on snd (set m)" using assms(1) by (simp add: dir_ok_def distinct_map)
  then have "distinct (map snd m')" using assms(3) eq by (simp add: distinct_map)
  then show ?thesis using assms eq by (simp add: dir_ok_def list_all_iff)
qed

lemma mark_used_ok:
  "\<forall>i \<in> set is. 0 < i \<and> i < length st \<Longrightarrow>
    \<exists>st'. mark_used is st = Ok st' \<and> length st' = length st \<and> (\<forall>k < length st. st' ! k \<longleftrightarrow> st ! k \<or> k \<in> set is)"
proof (induction "is" arbitrary: st)
  case (Cons i "is")
  from Cons.IH [of "st[i := True]"] Cons.prems obtain st' where
    "mark_used is (st[i := True]) = Ok st'" "length st' = length st"
    "\<forall>k < length st. st' ! k \<longleftrightarrow> st[i := True] ! k \<or> k \<in> set is" by auto
  then show ?case using Cons.prems by (auto simp: mappingConfigSlot_def nth_list_update)
qed simp

text \<open>A write that reports an error has left no complete record behind.\<close>

definition failed_visible :: "unit res \<Rightarrow> bytes list \<Rightarrow> bytes list \<Rightarrow> Slot \<Rightarrow> bytes \<Rightarrow> bool" where
  "failed_visible r bl bl' s data \<longleftrightarrow>
     (\<forall>e j. r = Err e \<longrightarrow> s_journal s = Some j \<longrightarrow> torn_visible bl bl' (nextBlock j) data)"

context block_device
begin

text \<open>\<open>Init\<close> after a restart: the directory on the device gives back the map.\<close>

lemma Init_run:
  assumes "ok d" "part_rep (BlockSize dev) (blocks d) pt regs" "0 < length regs"
    and "dir_stored cx regs m" "dir_ok (length regs) m free"
  shows "\<exists>pt' m' free'. Init dev cx d (NewSlotPersistence pt) = (Ok (), \<lparr>part = pt', directorySlot = Some 0,
      directoryWriteToken = snd (regs ! 0), idToSlot = m', freeSlots = free'\<rparr>) \<and>
    part_rep (BlockSize dev) (blocks d) pt' regs \<and> Slot_Read (p_slots pt' ! 0) = Ok (regs ! 0) \<and>
    map_of m' = map_of m \<and> dir_ok (length regs) m' free' \<and> set free' = set free \<and> part_shape pt' = part_shape pt"
proof -
  have n: "length (p_slots pt) = length regs" using assms(2) by (auto simp: part_rep_def dest: list_all2_lengthD)
  from Partition_Open_rep [OF assms(1,2), of 0] n assms(3) obtain pt' where
    o: "Partition_Open dev d pt 0 = (Ok 0, pt')" "part_rep (BlockSize dev) (blocks d) pt' regs"
      "length (p_slots pt') = length regs" "Slot_Read (p_slots pt' ! 0) = Ok (regs ! 0)" by auto
  from assms(4) obtain m' where m': "yaml_UnmarshalMap cx (fst (regs ! 0)) [] = (None, m')"
    "map_of m' = map_of m" "distinct (map fst m')" unfolding dir_stored_def by blast
  have eq: "set m' = set m" using same_map_set [OF m'(2,3)] assms(5) by (simp add: dir_ok_def)
  have rng: "set (map snd m') \<union> set free = {1 ..< length regs}" "set (map snd m') \<inter> set free = {}"
    using assms(5) eq by (simp_all add: dir_ok_def)
  define U where "U = set (map snd m')"
  note rng = rng [folded U_def]
  have "U \<subseteq> {1 ..< length regs}" using rng(1) by blast
  then have "\<forall>i \<in> U. 0 < i \<and> i < length (replicate (length regs) False)"
    unfolding length_replicate by fastforce
  from mark_used_ok [OF this [unfolded U_def]] obtain st where st: "mark_used (map snd m') (replicate (length regs) False) = Ok st"
    "length st = length regs" "\<forall>k < length regs. st ! k \<longleftrightarrow> k \<in> U" by (auto simp: U_def)
  define free' where "free' = filter (\<lambda>idx. \<not> st[0 := True] ! idx) [0 ..< length regs]"
  have "set free' = {1 ..< length regs} - U"
    using st(2,3) assms(3) by (auto simp: free'_def nth_list_update)
  then have "set free' = set free" using rng by blast
  moreover have "distinct free'" by (simp add: free'_def)
  ultimately have dok: "dir_ok (length regs) m' free'" using dir_ok_same [OF assms(5) m'(2,3)] by blast
  let ?p = "\<lparr>part = pt', directorySlot = Some 0, directoryWriteToken = snd (regs ! 0), idToSlot = m', freeSlots = free'\<rparr>"
  obtain b t where bt: "regs ! 0 = (b, t)" by fastforce
  have "Init dev cx d (NewSlotPersistence pt) = (Ok (), ?p)"
    using o m'(1) st(1) assms(3)
    by (simp add: Init_def NewSlotPersistence_def populateMap_def mappingConfigSlot_def NumSlots_def bt Let_def free'_def)
  then show ?thesis
    using o dok m'(2) \<open>set free' = set free\<close> Partition_Open_shape [OF o(1)] by blast
qed

lemma Init_rep:
  assumes "ok d" "part_rep (BlockSize dev) (blocks d) pt regs" "0 < length regs" "length regs < W32"
    and "dir_stored cx regs m" "dir_ok (length regs) m free"
  shows "\<exists>p. Init dev cx d (NewSlotPersistence pt) = (Ok (), p) \<and> pers_inv (BlockSize dev) (blocks d) p regs \<and>
    map_of (idToSlot p) = map_of m \<and> set (freeSlots p) = set free \<and> part_shape (part p) = part_shape pt"
proof -
  from Init_run [OF assms(1-3,5,6)] obtain pt' m' free' where
    "Init dev cx d (NewSlotPersistence pt) = (Ok (), \<lparr>part = pt', directorySlot = Some 0,
      directoryWriteToken = snd (regs ! 0), idToSlot = m', freeSlots = free'\<rparr>)"
    "part_rep (BlockSize dev) (blocks d) pt' regs" "Slot_Read (p_slots pt' ! 0) = Ok (regs ! 0)"
    "map_of m' = map_of m" "dir_ok (length regs) m' free'" "set free' = set free" "part_shape pt' = part_shape pt" by blast
  then show ?thesis using assms(3,4) by (simp add: pers_inv_def)
qed

text \<open>Opening the slot of a log changes nothing but the open journals.\<close>

lemma pers_open:
  assumes "ok d" "pers_inv (BlockSize dev) (blocks d) p regs" "i < length regs"
  shows "\<exists>pt. Partition_Open dev d (part p) i = (Ok i, pt) \<and>
    pers_inv (BlockSize dev) (blocks d) (p\<lparr>part := pt\<rparr>) regs \<and> Slot_Read (p_slots pt ! i) = Ok (regs ! i) \<and>
    (\<forall>k. k \<noteq> i \<longrightarrow> p_slots pt ! k = p_slots (part p) ! k)"
proof -
  have pr: "part_rep (BlockSize dev) (blocks d) (part p) regs" using assms(2) by (simp add: pers_inv_def)
  then have "i < length (p_slots (part p))"
    using assms(3) by (auto simp: part_rep_def dest: list_all2_lengthD)
  from Partition_Open_rep [OF assms(1) pr this] obtain pt where pt: "Partition_Open dev d (part p) i = (Ok i, pt)"
    "part_rep (BlockSize dev) (blocks d) pt regs" "Slot_Read (p_slots pt ! i) = Ok (regs ! i)"
    "\<forall>k. k \<noteq> i \<longrightarrow> p_slots pt ! k = p_slots (part p) ! k" by blast
  then have "Slot_Read (p_slots pt ! 0) = Ok (regs ! 0)"
    using assms(2) by (cases "i = 0") (simp_all add: pers_inv_def)
  then show ?thesis using pt assms(2) by (simp add: pers_inv_def)
qed

text \<open>A write through slot \<open>i\<close>, for the partition.\<close>

lemma pers_write:
  assumes "ok d" "part_rep (BlockSize dev) (blocks d) (part p) regs" "i < length regs"
    and "Slot_Read (p_slots (part p) ! i) = Ok (regs ! i)"
    and "slot_CheckAndWrite dev d p i token data = (r, d', p')"
    and "safe_data (BlockSize dev) data" "snd (regs ! i) + 1 \<noteq> 0"
    and "failed_visible r (blocks d) (blocks d') (p_slots (part p') ! i) data"
  shows "ok d' \<and> (\<forall>y. r \<noteq> Panic y) \<and> (r = Ok () \<longrightarrow> token = snd (regs ! i)) \<and>
    part_rep (BlockSize dev) (blocks d') (part p') (if r = Ok () then regs[i := (data, snd (regs ! i) + 1)] else regs) \<and>
    p' = p\<lparr>part := part p'\<rparr> \<and> (\<forall>k. k \<noteq> i \<longrightarrow> p_slots (part p') ! k = p_slots (part p) ! k) \<and>
    part_shape (part p') = part_shape (part p) \<and> s_journal (p_slots (part p') ! i) \<noteq> None"
proof -
  have i: "i < length (p_slots (part p))"
    using assms(2,3) by (auto simp: part_rep_def dest: list_all2_lengthD)
  obtain s' where w: "Slot_CheckAndWrite dev d (p_slots (part p) ! i) token data = (r, d', s')"
    and p': "p' = p\<lparr>part := (part p)\<lparr>p_slots := (p_slots (part p))[i := s']\<rparr>\<rparr>"
    using assms(5) by (auto simp: slot_CheckAndWrite_def split: prod.splits)
  have rd: "Slot_Read (p_slots (part p) ! i) = Ok (fst (regs ! i), snd (regs ! i))" using assms(4) by simp
  have si: "p_slots (part p') ! i = s'" using i by (simp add: p')
  have "s_journal s' \<noteq> None"
    using w rd by (auto simp: Slot_CheckAndWrite_def Slot_Read_def split: option.splits if_splits prod.splits)
  moreover have "part_shape (part p') = part_shape (part p)"
    using Slot_CheckAndWrite_shape [OF w] part_shape_update [OF i] by (simp add: p')
  moreover have "torn_visible (blocks d) (blocks d') (nextBlock j') data" if "r = Err e" "s_journal s' = Some j'" for e j'
    using assms(8) that si by (simp add: failed_visible_def)
  note Slot_CheckAndWrite_rep [OF assms(1,2) i rd w assms(6,7) this]
  ultimately show ?thesis using si by (simp add: p')
qed

lemma slot_read_open:
  assumes "part_rep bs bl pt regs" "i < length regs" "s_journal (p_slots pt ! i) \<noteq> None"
  shows "Slot_Read (p_slots pt ! i) = Ok (regs ! i)"
proof -
  have "i < length (p_slots pt)" using assms(1,2) by (auto simp: part_rep_def dest: list_all2_lengthD)
  from part_rep_nth(1) [OF assms(1) this] assms(3) show ?thesis
    by (auto simp: slot_rep_def Slot_Read_def journal_Data_def)
qed

text \<open>A write to the slot of a log keeps the invariant.\<close>

lemma pers_write_log:
  assumes "ok d" "pers_inv (BlockSize dev) (blocks d) p regs" "map_of (idToSlot p) lid = Some i"
    and "Slot_Read (p_slots (part p) ! i) = Ok (regs ! i)"
    and "slot_CheckAndWrite dev d p i token data = (r, d', p')"
    and "safe_data (BlockSize dev) data" "snd (regs ! i) + 1 \<noteq> 0"
    and "failed_visible r (blocks d) (blocks d') (p_slots (part p') ! i) data"
  shows "ok d' \<and> (\<forall>y. r \<noteq> Panic y) \<and> (r = Ok () \<longrightarrow> token = snd (regs ! i)) \<and>
    pers_inv (BlockSize dev) (blocks d') p' (if r = Ok () then regs[i := (data, snd (regs ! i) + 1)] else regs) \<and>
    p' = p\<lparr>part := part p'\<rparr> \<and> (\<forall>k. k \<noteq> i \<longrightarrow> p_slots (part p') ! k = p_slots (part p) ! k) \<and>
    part_shape (part p') = part_shape (part p) \<and> s_journal (p_slots (part p') ! i) \<noteq> None"
proof -
  have dok: "dir_ok (length regs) (idToSlot p) (freeSlots p)" using assms(2) by (simp add: pers_inv_def)
  have i: "0 < i" "i < length regs" using dir_ok_slot [OF dok assms(3)] by simp_all
  have pr: "part_rep (BlockSize dev) (blocks d) (part p) regs" using assms(2) by (simp add: pers_inv_def)
  note W = pers_write [OF assms(1) pr i(2) assms(4-8)]
  then have p': "p' = p\<lparr>part := part p'\<rparr>" "p_slots (part p') ! 0 = p_slots (part p) ! 0"
    using i(1) by (blast, metis less_numeral_extra(3))
  have same: "idToSlot p' = idToSlot p" "freeSlots p' = freeSlots p" "directorySlot p' = directorySlot p"
    "directoryWriteToken p' = directoryWriteToken p"
    by (subst p'(1); simp)+
  have "pers_inv (BlockSize dev) (blocks d') p' (if r = Ok () then regs[i := (data, snd (regs ! i) + 1)] else regs)"
    using W assms(2) i p'(2) by (auto simp: pers_inv_def same)
  with W show ?thesis by blast
qed

end

text \<open>
  What \<open>addLog\<close> does to the registers when it succeeds: the directory with the new entry is written to
  slot 0.
\<close>

definition dir_bytes :: "codec \<Rightarrow> slotMap \<Rightarrow> bytes" where
  "dir_bytes cx m = (case yaml_MarshalMap cx m of Ok b \<Rightarrow> b | _ \<Rightarrow> [])"

definition add_regs :: "codec \<Rightarrow> SlotPersistence \<Rightarrow> (bytes \<times> 32 word) list \<Rightarrow> string \<Rightarrow> (bytes \<times> 32 word) list" where
  "add_regs cx p regs lid =
     (if map_of (idToSlot p) lid = None
      then regs[0 := (dir_bytes cx (AList.update lid (hd (freeSlots p)) (idToSlot p)), snd (regs ! 0) + 1)]
      else regs)"

locale persistence = block_device dev blocks ok + directory_codec cx
  for dev :: "'d BlockReaderWriter" and blocks :: "'d \<Rightarrow> bytes list" and ok :: "'d \<Rightarrow> bool" and cx :: codec
begin

lemma marshal_dir:
  assumes "dir_ok n m free" "n < W32"
  shows "\<exists>b. yaml_MarshalMap cx m = Ok b \<and> safe_data bs b \<and> (\<forall>regs rv. regs \<noteq> [] \<longrightarrow> dir_stored cx (regs[0 := (b, rv)]) m)"
proof -
  have "list_all (\<lambda>(k, i). id_ok k \<and> i < W32) m"
  proof (unfold list_all_iff, intro ballI, clarify)
    fix k i assume ki: "(k, i) \<in> set m"
    then have "i \<in> set (map snd m)" by force
    then have "i \<in> {1 ..< n}" using assms(1) unfolding dir_ok_def by blast
    then show "id_ok k \<and> i < W32" using assms ki by (auto simp: dir_ok_def list_all_iff)
  qed
  moreover have "distinct (map fst m)" using assms(1) by (simp add: dir_ok_def)
  ultimately obtain b m' where "yaml_MarshalMap cx m = Ok b" "set b \<subseteq> set yaml_chars"
    "yaml_UnmarshalMap cx b [] = (None, m')" "map_of m' = map_of m" "distinct (map fst m')"
    using marshal_map by blast
  then show ?thesis using yaml_safe by (auto simp: dir_stored_def)
qed

lemma logSlot_rep:
  assumes "ok d" "pers_inv (BlockSize dev) (blocks d) p regs"
    and "logSlot dev cx d p lid True = (Ok i, d', p')" "id_ok lid"
    and "map_of (idToSlot p) lid = None \<Longrightarrow> directoryWriteToken p + 1 \<noteq> 0"
  shows "ok d' \<and> pers_inv (BlockSize dev) (blocks d') p' (add_regs cx p regs lid) \<and>
    (map_of (idToSlot p) lid = None \<longrightarrow> dir_stored cx (add_regs cx p regs lid) (idToSlot p')) \<and>
    map_of (idToSlot p') = (map_of (idToSlot p))(lid \<mapsto> i) \<and>
    (\<forall>k. k \<noteq> 0 \<longrightarrow> p_slots (part p') ! k = p_slots (part p) ! k) \<and> part_shape (part p') = part_shape (part p) \<and>
    freeSlots p = (if map_of (idToSlot p) lid = None then [i] else []) @ freeSlots p'"
proof (cases "map_of (idToSlot p) lid")
  case (Some i')
  then show ?thesis using assms by (auto simp: logSlot_def add_regs_def fun_upd_idem)
next
  case None
  let ?bs = "BlockSize dev"
  note P = assms(2) [unfolded pers_inv_def]
  from assms(3) None obtain f fs where free: "freeSlots p = f # fs"
    by (auto simp: logSlot_def addLog_def split: list.splits)
  let ?m = "AList.update lid f (idToSlot p)"
  let ?p = "p\<lparr>freeSlots := fs, idToSlot := ?m\<rparr>"
  have dok: "dir_ok (length regs) ?m fs" using dir_ok_add [of _ _ f fs] P None assms(4) by (simp add: free)
  then obtain b where b: "yaml_MarshalMap cx ?m = Ok b" "safe_data ?bs b"
    "\<And>regs rv. regs \<noteq> [] \<Longrightarrow> dir_stored cx (regs[0 := (b, rv)]) ?m"
    using marshal_dir P by blast
  obtain r d1 p1 where w: "slot_CheckAndWrite dev d ?p 0 (directoryWriteToken p) b = (r, d1, p1)"
    by (metis surj_pair)
  have st: "storeDirectory dev cx d ?p = (Ok (), d', p')" "i = f"
    using assms(3) None by (auto simp: logSlot_def addLog_def free split: res.splits prod.splits)
  have r: "r = Ok ()" "d' = d1" and p': "p' = p1\<lparr>directoryWriteToken := directoryWriteToken p1 + 1\<rparr>"
    using st(1) b(1) w P by (auto simp: storeDirectory_def split: res.splits)
  have "failed_visible r (blocks d) (blocks d1) (p_slots (part p1) ! 0) b" by (simp add: failed_visible_def r)
  then have W: "ok d1" "part_rep ?bs (blocks d1) (part p1) (regs[0 := (b, snd (regs ! 0) + 1)])"
    "p1 = ?p\<lparr>part := part p1\<rparr>" "\<forall>k. k \<noteq> 0 \<longrightarrow> p_slots (part p1) ! k = p_slots (part ?p) ! k"
    "part_shape (part p1) = part_shape (part ?p)" "s_journal (p_slots (part p1) ! 0) \<noteq> None"
    using pers_write [OF assms(1) _ _ _ w b(2)] P assms(5) [OF None] by (auto simp: r)
  have f1: "idToSlot p1 = ?m" "freeSlots p1 = fs" "directorySlot p1 = Some 0" "directoryWriteToken p1 = snd (regs ! 0)"
    using P by (subst W(3); simp)+
  have reg: "add_regs cx p regs lid = regs[0 := (b, snd (regs ! 0) + 1)]"
    using None b(1) by (simp add: add_regs_def dir_bytes_def free)
  have rd: "Slot_Read (p_slots (part p1) ! 0) = Ok ((regs[0 := (b, snd (regs ! 0) + 1)]) ! 0)"
    using P by (intro slot_read_open [OF W(2) _ W(6)]) simp
  have "pers_inv ?bs (blocks d') p' (add_regs cx p regs lid)"
    using P W(2) f1 rd dok unfolding pers_inv_def reg p' r(2) by (auto simp: free)
  moreover have "dir_stored cx (add_regs cx p regs lid) (idToSlot p')"
    using b(3) P by (auto simp: reg p' f1)
  moreover have "map_of ?m = (map_of (idToSlot p))(lid \<mapsto> f)" by (simp add: update_conv')
  ultimately show ?thesis using W None st(2) P by (auto simp: p' f1 r free)
qed

text \<open>
  When the directory cannot be written, the new log stays in the directory in memory and its slot is no longer
  free, while the registers are as before.
\<close>

lemma logSlot_unstored:
  assumes "ok d" "pers_inv (BlockSize dev) (blocks d) p regs" "logSlot dev cx d p lid True = (Err e, d', p')" "id_ok lid"
    and "map_of (idToSlot p) lid = None" "freeSlots p = i # fs" "directoryWriteToken p + 1 \<noteq> 0"
    and "failed_visible (Err e) (blocks d) (blocks d') (p_slots (part p') ! 0) (dir_bytes cx (idToSlot p'))"
  shows "ok d' \<and> pers_inv (BlockSize dev) (blocks d') p' regs \<and> map_of (idToSlot p') = (map_of (idToSlot p))(lid \<mapsto> i) \<and>
    freeSlots p' = fs \<and> (\<forall>k. k \<noteq> 0 \<longrightarrow> p_slots (part p') ! k = p_slots (part p) ! k) \<and> part_shape (part p') = part_shape (part p)"
proof -
  let ?bs = "BlockSize dev" and ?m = "AList.update lid i (idToSlot p)"
  let ?p = "p\<lparr>freeSlots := fs, idToSlot := ?m\<rparr>"
  note P = assms(2) [unfolded pers_inv_def]
  have dok: "dir_ok (length regs) ?m fs" using dir_ok_add [of _ _ i fs] P assms(4-6) by simp
  then obtain b where b: "yaml_MarshalMap cx ?m = Ok b" "safe_data ?bs b" using marshal_dir P by blast
  obtain r where w: "slot_CheckAndWrite dev d ?p 0 (directoryWriteToken p) b = (r, d', p')" "r \<noteq> Ok ()"
    using assms(3,5) b(1) P
    by (auto simp: logSlot_def addLog_def storeDirectory_def assms(6) split: res.splits prod.splits)
  from w(1) have ids: "idToSlot p' = ?m" by (auto simp: slot_CheckAndWrite_def split: prod.splits)
  then have "dir_bytes cx (idToSlot p') = b" by (simp add: dir_bytes_def b(1))
  then have "failed_visible r (blocks d) (blocks d') (p_slots (part p') ! 0) b"
    using assms(8) by (auto simp: failed_visible_def)
  then have W: "ok d'" "part_rep ?bs (blocks d') (part p') regs" "p' = ?p\<lparr>part := part p'\<rparr>"
    "\<forall>k. k \<noteq> 0 \<longrightarrow> p_slots (part p') ! k = p_slots (part ?p) ! k" "part_shape (part p') = part_shape (part ?p)"
    "s_journal (p_slots (part p') ! 0) \<noteq> None"
    using pers_write [OF assms(1) _ _ _ w(1) b(2)] P assms(7) w(2) by auto
  have f: "freeSlots p' = fs" "directorySlot p' = Some 0" "directoryWriteToken p' = snd (regs ! 0)"
    using P by (subst W(3); simp)+
  have "Slot_Read (p_slots (part p') ! 0) = Ok (regs ! 0)" using P by (intro slot_read_open [OF W(2) _ W(6)]) simp
  then have "pers_inv ?bs (blocks d') p' regs" using P W(2) dok by (simp add: pers_inv_def f ids)
  then show ?thesis using W f(1) ids by (simp add: update_conv')
qed

end


section \<open>The operations on the abstract state\<close>

text \<open>What \<open>Latest\<close> returns for a log with the given register.\<close>

definition latest_of :: "codec \<Rightarrow> (bytes \<times> 32 word) option \<Rightarrow> bytes res" where
  "latest_of cx a =
     (case a of
        None \<Rightarrow> Err (StatusError ''NotFound'' ''no slot for log'')
      | Some (b, _) \<Rightarrow>
          if b = [] then Err (StatusError ''NotFound'' ''no checkpoint for log'') else unmarshalCheckpoint cx b)"

text \<open>The slots that are open stay open, and the slots keep their places.\<close>

definition still_open :: "Partition \<Rightarrow> Partition \<Rightarrow> bool" where
  "still_open pt pt' \<longleftrightarrow> part_shape pt' = part_shape pt \<and>
     (\<forall>k. s_journal (p_slots pt ! k) \<noteq> None \<longrightarrow> s_journal (p_slots pt' ! k) \<noteq> None)"

lemma Slot_Read_open: "Slot_Read s = Ok a \<Longrightarrow> s_journal s \<noteq> None"
  by (auto simp: Slot_Read_def split: option.splits)

lemma pers_slot: "pers_inv bs bl p regs \<Longrightarrow> map_of (idToSlot p) lid = Some i \<Longrightarrow> 0 < i \<and> i < length regs"
  unfolding pers_inv_def using dir_ok_slot by blast

context persistence
begin

lemma pers_open_slot:
  assumes "ok d" "pers_inv (BlockSize dev) (blocks d) p regs" "i < length regs"
  shows "\<exists>pt. Partition_Open dev d (part p) i = (Ok i, pt) \<and>
    pers_inv (BlockSize dev) (blocks d) (p\<lparr>part := pt\<rparr>) regs \<and> Slot_Read (p_slots pt ! i) = Ok (regs ! i) \<and>
    still_open (part p) pt"
proof -
  from pers_open [OF assms] obtain pt where pt: "Partition_Open dev d (part p) i = (Ok i, pt)"
    "pers_inv (BlockSize dev) (blocks d) (p\<lparr>part := pt\<rparr>) regs" "Slot_Read (p_slots pt ! i) = Ok (regs ! i)"
    "\<forall>k. k \<noteq> i \<longrightarrow> p_slots pt ! k = p_slots (part p) ! k" by blast
  have "s_journal (p_slots pt ! k) \<noteq> None" if "s_journal (p_slots (part p) ! k) \<noteq> None" for k
    using that pt(4) Slot_Read_open [OF pt(3)] by (cases "k = i") simp_all
  then show ?thesis using pt Partition_Open_shape [OF pt(1)] by (simp add: still_open_def)
qed

lemma Latest_rep:
  assumes "ok d" "pers_inv (BlockSize dev) (blocks d) p regs"
  shows "\<exists>pt. Latest dev cx d p origin = (latest_of cx (log_reg p regs (logfmt_ID cx origin)), d, p\<lparr>part := pt\<rparr>) \<and>
    pers_inv (BlockSize dev) (blocks d) (p\<lparr>part := pt\<rparr>) regs \<and> still_open (part p) pt"
proof (cases "map_of (idToSlot p) (logfmt_ID cx origin)")
  case None
  then show ?thesis
    using assms by (intro exI [of _ "part p"]) (simp add: Latest_def logSlot_def latest_of_def log_reg_def still_open_def)
next
  case (Some i)
  have "i < length regs" using pers_slot [OF assms(2) Some] by simp
  from pers_open_slot [OF assms this] obtain pt where
    "Partition_Open dev d (part p) i = (Ok i, pt)" "pers_inv (BlockSize dev) (blocks d) (p\<lparr>part := pt\<rparr>) regs"
    "Slot_Read (p_slots pt ! i) = Ok (regs ! i)" "still_open (part p) pt" by blast
  then show ?thesis
    using Some by (intro exI [of _ pt])
      (simp add: Latest_def logSlot_def latest_of_def log_reg_def Let_def split: prod.split)
qed

text \<open>
  The first half of an update of a log that has a slot or gets one: what it leaves behind, and what it is about
  to write when it succeeds.
\<close>

lemma prepare_open:
  assumes "ok d" "pers_inv (BlockSize dev) (blocks d) p regs" "Update_prepare dev cx d p origin f = (r, d', p')"
    and lid: "lid = logfmt_ID cx origin" and "logSlot dev cx d p lid True = (Ok i, d1, p1)"
    and "map_of (idToSlot p) lid = None \<Longrightarrow> directoryWriteToken p + 1 \<noteq> 0"
    and regs': "regs' = add_regs cx p regs lid"
  shows "ok d' \<and> pers_inv (BlockSize dev) (blocks d') p' regs' \<and>
    (map_of (idToSlot p) lid = None \<longrightarrow> dir_stored cx regs' (idToSlot p')) \<and>
    map_of (idToSlot p') = (map_of (idToSlot p))(lid \<mapsto> i) \<and>
    freeSlots p = (if map_of (idToSlot p) lid = None then [i] else []) @ freeSlots p' \<and>
    s_journal (p_slots (part p') ! i) \<noteq> None \<and> still_open (part p) (part p') \<and>
    (\<forall>s t b. r = Ok (s, t, b) \<longrightarrow> s = i \<and> t = snd (regs' ! i) \<and>
      (\<exists>cur new. unmarshalCheckpoint cx (fst (regs' ! i)) = Ok cur \<and> f cur = Ok new \<and> b = marshalCheckpoint new))"
proof -
  let ?bs = "BlockSize dev"
  have idok: "id_ok lid" using logfmt_id_ok lid by simp
  from logSlot_rep [OF assms(1,2,5) idok assms(6), folded regs']
  have L: "ok d1" "pers_inv ?bs (blocks d1) p1 regs'"
    "map_of (idToSlot p) lid = None \<Longrightarrow> dir_stored cx regs' (idToSlot p1)"
    "map_of (idToSlot p1) = (map_of (idToSlot p))(lid \<mapsto> i)"
    "\<And>k. k \<noteq> 0 \<Longrightarrow> p_slots (part p1) ! k = p_slots (part p) ! k" "part_shape (part p1) = part_shape (part p)"
    "freeSlots p = (if map_of (idToSlot p) lid = None then [i] else []) @ freeSlots p1" by blast+
  have i: "i < length regs'" using pers_slot [OF L(2), of lid i] L(4) by simp
  from pers_open_slot [OF L(1,2) i] obtain pt where
    o: "Partition_Open dev d1 (part p1) i = (Ok i, pt)" "pers_inv ?bs (blocks d1) (p1\<lparr>part := pt\<rparr>) regs'"
      "Slot_Read (p_slots pt ! i) = Ok (regs' ! i)" "still_open (part p1) pt" by blast
  obtain x rv where xr: "regs' ! i = (x, rv)" by fastforce
  have u: "d' = d1" "p' = p1\<lparr>part := pt\<rparr>" and w: "\<forall>s t b. r = Ok (s, t, b) \<longrightarrow> s = i \<and> t = snd (regs' ! i) \<and>
      (\<exists>cur new. unmarshalCheckpoint cx (fst (regs' ! i)) = Ok cur \<and> f cur = Ok new \<and> b = marshalCheckpoint new)"
    using assms(3,5) o(1,3) xr by (auto simp: Update_prepare_def lid Let_def split: res.splits)
  have "s_journal (p_slots (part p1) ! 0) \<noteq> None" using L(2) Slot_Read_open unfolding pers_inv_def by blast
  then have "s_journal (p_slots (part p1) ! k) \<noteq> None" if "s_journal (p_slots (part p) ! k) \<noteq> None" for k
    using that L(5) by (cases "k = 0") auto
  then have "still_open (part p) pt" using o(4) L(6) by (simp add: still_open_def)
  then show ?thesis using L o(2) Slot_Read_open [OF o(3)] by (intro conjI w) (simp_all add: u)
qed

end


section \<open>Interleaved updates, failures and restarts\<close>

text \<open>
  The runs of a persistence, with every outcome of its operations. Beside the device and the persistence there is
  the abstract state: what was last written to each slot (\<open>R\<close>), the directory in memory (\<open>M\<close>), the directory that
  was last stored (\<open>D\<close>), and the updates that have been prepared and not yet committed (\<open>W\<close>: log, slot, token
  and bytes to write, and the data the update started from). Any number of updates may be under way: their two
  halves interleave with each other and with \<open>Latest\<close>.

  An update of a log that has a slot, or gets one because the new directory is stored, prepares its write; when
  its function returns an error it ends there. It ends without a change when there is no free slot. When
  storing the directory fails, the log is in the directory in memory only. A restart drops the updates under
  way and goes back to the stored directory.
\<close>

type_synonym pending = "string \<times> (nat \<times> 32 word \<times> bytes) \<times> bytes"

definition add_pending :: "string \<Rightarrow> bytes \<Rightarrow> (nat \<times> 32 word \<times> bytes) res \<Rightarrow> pending set \<Rightarrow> pending set" where
  "add_pending lid base r W = (case r of Ok w \<Rightarrow> insert (lid, w, base) W | _ \<Rightarrow> W)"

inductive pers_run :: "'d BlockReaderWriter \<Rightarrow> ('d \<Rightarrow> bytes list) \<Rightarrow> ('d \<Rightarrow> bool) \<Rightarrow> codec \<Rightarrow> Geometry \<Rightarrow>
    'd \<Rightarrow> SlotPersistence \<Rightarrow> (bytes \<times> 32 word) list \<Rightarrow> (string \<rightharpoonup> nat) \<Rightarrow> (string \<rightharpoonup> nat) \<Rightarrow> pending set \<Rightarrow> bool"
  for dev blocks ok cx geo where
  r_init: "ok d \<Longrightarrow> geo_ok (BlockSize dev) (length (blocks d)) geo \<Longrightarrow> SlotLengths geo \<noteq> [] \<Longrightarrow>
    length (SlotLengths geo) < W32 \<Longrightarrow>
    \<forall>b \<in> set (jregion (blocks d) (Start geo) (Length geo)). no_magic b \<Longrightarrow> OpenPartition geo = Ok pt \<Longrightarrow>
    Init dev cx d (NewSlotPersistence pt) = (Ok (), p) \<Longrightarrow>
    pers_run dev blocks ok cx geo d p (replicate (length (SlotLengths geo)) ([], 0)) Map.empty Map.empty {}"
| r_latest: "pers_run dev blocks ok cx geo d p R M D W \<Longrightarrow> Latest dev cx d p origin = (r, d', p') \<Longrightarrow>
    pers_run dev blocks ok cx geo d' p' R M D W"
| r_prepared: "pers_run dev blocks ok cx geo d p R M D W \<Longrightarrow> lid = logfmt_ID cx origin \<Longrightarrow>
    logSlot dev cx d p lid True = (Ok i, d1, p1) \<Longrightarrow> Update_prepare dev cx d p origin f = (r, d', p') \<Longrightarrow>
    (M lid = None \<Longrightarrow> directoryWriteToken p + 1 \<noteq> 0) \<Longrightarrow> R' = add_regs cx p R lid \<Longrightarrow>
    pers_run dev blocks ok cx geo d' p' R' (M(lid \<mapsto> i)) (if M lid = None then M(lid \<mapsto> i) else D)
      (add_pending lid (fst (R' ! i)) r W)"
| r_full: "pers_run dev blocks ok cx geo d p R M D W \<Longrightarrow> M (logfmt_ID cx origin) = None \<Longrightarrow> freeSlots p = [] \<Longrightarrow>
    Update_prepare dev cx d p origin f = (r, d', p') \<Longrightarrow> pers_run dev blocks ok cx geo d' p' R M D W"
| r_unstored: "pers_run dev blocks ok cx geo d p R M D W \<Longrightarrow> lid = logfmt_ID cx origin \<Longrightarrow> M lid = None \<Longrightarrow>
    freeSlots p = i # fs \<Longrightarrow> logSlot dev cx d p lid True = (Err e, d1, p1) \<Longrightarrow>
    Update_prepare dev cx d p origin f = (r, d', p') \<Longrightarrow> directoryWriteToken p + 1 \<noteq> 0 \<Longrightarrow>
    failed_visible (Err e) (blocks d) (blocks d') (p_slots (part p') ! 0) (dir_bytes cx (idToSlot p')) \<Longrightarrow>
    pers_run dev blocks ok cx geo d' p' R (M(lid \<mapsto> i)) D W"
| r_commit: "pers_run dev blocks ok cx geo d p R M D W \<Longrightarrow> (lid, (i, t, b), base) \<in> W \<Longrightarrow>
    Update_commit dev d p (i, t, b) = (r, d', p') \<Longrightarrow> safe_data (BlockSize dev) b \<Longrightarrow> snd (R ! i) + 1 \<noteq> 0 \<Longrightarrow>
    failed_visible r (blocks d) (blocks d') (p_slots (part p') ! i) b \<Longrightarrow>
    pers_run dev blocks ok cx geo d' p' (if r = Ok () then R[i := (b, t + 1)] else R) M D (W - {(lid, (i, t, b), base)})"
| r_restart: "pers_run dev blocks ok cx geo d p R M D W \<Longrightarrow> OpenPartition geo = Ok pt \<Longrightarrow>
    Init dev cx d (NewSlotPersistence pt) = (Ok (), p') \<Longrightarrow> pers_run dev blocks ok cx geo d p' R D D {}"

text \<open>
  A prepared update: its token is not newer than the register of its log, and if it is the
  register's revision, the update started from what the register holds now.
\<close>

fun pending_ok :: "SlotPersistence \<Rightarrow> (bytes \<times> 32 word) list \<Rightarrow> pending \<Rightarrow> bool" where
  "pending_ok p regs (lid, (i, t, b), base) \<longleftrightarrow>
     map_of (idToSlot p) lid = Some i \<and> s_journal (p_slots (part p) ! i) \<noteq> None \<and>
     unat t \<le> unat (snd (regs ! i)) \<and> (t = snd (regs ! i) \<longrightarrow> base = fst (regs ! i))"

definition run_state :: "nat \<Rightarrow> bytes list \<Rightarrow> codec \<Rightarrow> Geometry \<Rightarrow> SlotPersistence \<Rightarrow> (bytes \<times> 32 word) list \<Rightarrow>
    (string \<rightharpoonup> nat) \<Rightarrow> (string \<rightharpoonup> nat) \<Rightarrow> pending set \<Rightarrow> bool" where
  "run_state bs bl cx geo p R M D W \<longleftrightarrow>
     pers_inv bs bl p R \<and> part_shape (part p) = geo_shape geo \<and> map_of (idToSlot p) = M \<and> D \<subseteq>\<^sub>m M \<and>
     (\<exists>m fr. dir_stored cx R m \<and> dir_ok (length R) m fr \<and> map_of m = D) \<and> (\<forall>w \<in> W. pending_ok p R w)"

lemma pending_ok_keep:
  assumes "pending_ok p regs w" "still_open (part p) (part p')" "pers_inv bs bl p regs"
    and "map_of (idToSlot p) \<subseteq>\<^sub>m map_of (idToSlot p')" "\<forall>j. 0 < j \<longrightarrow> regs' ! j = regs ! j"
  shows "pending_ok p' regs' w"
proof -
  obtain lid i t b base where w: "w = (lid, (i, t, b), base)" by (metis surj_pair)
  have i: "map_of (idToSlot p) lid = Some i" using assms(1) by (simp add: w)
  then have "map_of (idToSlot p') lid = Some i" using assms(4) by (metis domI map_le_def)
  moreover have "regs' ! i = regs ! i" using pers_slot [OF assms(3) i] assms(5) by simp
  moreover have "s_journal (p_slots (part p') ! i) \<noteq> None" using assms(1,2) by (simp add: w still_open_def)
  ultimately show ?thesis using assms(1) by (simp add: w)
qed

lemma log_reg_update:
  assumes "pers_inv bs bl p regs" "map_of (idToSlot p) lid = Some i"
  shows "log_reg p (regs[i := a]) = (log_reg p regs)(lid \<mapsto> a)"
proof (rule ext)
  fix k
  have i: "i < length regs" using pers_slot [OF assms] by simp
  have "dir_ok (length regs) (idToSlot p) (freeSlots p)" using assms(1) by (simp add: pers_inv_def)
  from dir_ok_inj [OF this _ assms(2), of k] i
  show "log_reg p (regs[i := a]) k = ((log_reg p regs)(lid \<mapsto> a)) k"
    using assms(2) by (cases "map_of (idToSlot p) k") (auto simp: log_reg_def nth_list_update)
qed

lemma commit_slot:
  "Update_commit dev d p (i, t, b) = (r, d', p') \<Longrightarrow>
    \<exists>r0. slot_CheckAndWrite dev d p i t b = (r0, d', p') \<and> (r = Ok () \<longleftrightarrow> r0 = Ok ()) \<and>
      (\<forall>y. r = Panic y \<longrightarrow> r0 = Panic y) \<and> (failed_visible r bl bl' s data \<longrightarrow> failed_visible r0 bl bl' s data)"
  by (auto simp: Update_commit_def failed_visible_def split: prod.splits res.splits)

lemma unmarshal_marshal [simp]: "unmarshalCheckpoint c (marshalCheckpoint b) = Ok b"
  by (simp add: unmarshalCheckpoint_def marshalCheckpoint_def)

lemma run_stateE:
  assumes "run_state bs bl cx geo p R M D W"
  obtains m fr where "pers_inv bs bl p R" "part_shape (part p) = geo_shape geo" "map_of (idToSlot p) = M" "D \<subseteq>\<^sub>m M"
    "dir_stored cx R m" "dir_ok (length R) m fr" "map_of m = D" "\<forall>w \<in> W. pending_ok p R w"
  using assms unfolding run_state_def by blast

text \<open>The stored directory is determined by its slot, which only storing the directory writes.\<close>

lemma dir_stored_same: "dir_stored cx R m \<Longrightarrow> R' ! 0 = R ! 0 \<Longrightarrow> dir_stored cx R' m"
  by (simp add: dir_stored_def)

context persistence
begin

lemma restart_state:
  assumes "ok d" "run_state (BlockSize dev) (blocks d) cx geo p R M D W" "OpenPartition geo = Ok pt"
  shows "\<exists>p'. Init dev cx d (NewSlotPersistence pt) = (Ok (), p') \<and>
    run_state (BlockSize dev) (blocks d) cx geo p' R D D {}"
proof -
  from assms(2) obtain m fr where R: "pers_inv (BlockSize dev) (blocks d) p R" "part_shape (part p) = geo_shape geo"
    "dir_stored cx R m" "dir_ok (length R) m fr" "map_of m = D" by (rule run_stateE)
  note P = R(1) [unfolded pers_inv_def]
  have pt: "part_shape pt = part_shape (part p)" "list_all (\<lambda>s. s_journal s = None) (p_slots pt)"
    using OpenPartition_shape [OF assms(3)] R(2) by simp_all
  have "part_rep (BlockSize dev) (blocks d) pt R" using part_rep_reopen [OF _ pt] P by blast
  from Init_rep [OF assms(1) this _ _ R(3,4)] P obtain p' where
    p': "Init dev cx d (NewSlotPersistence pt) = (Ok (), p')" "pers_inv (BlockSize dev) (blocks d) p' R"
      "map_of (idToSlot p') = map_of m" "part_shape (part p') = part_shape pt" by blast
  then show ?thesis using R pt unfolding run_state_def by (intro exI [of _ p']) auto
qed

lemma init_state:
  assumes "ok d" "geo_ok (BlockSize dev) (length (blocks d)) geo" "SlotLengths geo \<noteq> []"
    and "length (SlotLengths geo) < W32"
    and "\<forall>b \<in> set (jregion (blocks d) (Start geo) (Length geo)). no_magic b" "OpenPartition geo = Ok pt"
  shows "\<exists>p. Init dev cx d (NewSlotPersistence pt) = (Ok (), p) \<and> set (freeSlots p) = {1 ..< length (SlotLengths geo)} \<and>
    run_state (BlockSize dev) (blocks d) cx geo p (replicate (length (SlotLengths geo)) ([], 0)) Map.empty Map.empty {}"
proof -
  define n where "n = length (SlotLengths geo)"
  define regs :: "(bytes \<times> 32 word) list" where "regs = replicate n ([], 0)"
  have n: "length regs = n" "0 < n" "n < W32" using assms(3,4) by (simp_all add: regs_def n_def)
  have "part_reach dev blocks ok geo d pt regs"
    unfolding regs_def n_def using assms(1,2,5,6) by (rule part_reach.pr_init)
  then have pr: "part_rep (BlockSize dev) (blocks d) pt regs" "part_shape pt = geo_shape geo"
    using part_reach_inv by blast+
  have free: "dir_ok (length regs) [] [1 ..< n]" by (simp add: dir_ok_def n(1))
  have st: "dir_stored cx regs []" using n unmarshal_empty by (simp add: dir_stored_def regs_def)
  from Init_rep [OF assms(1) pr(1) _ _ st free] n obtain p where
    "Init dev cx d (NewSlotPersistence pt) = (Ok (), p)" "pers_inv (BlockSize dev) (blocks d) p regs"
      "map_of (idToSlot p) = map_of []" "set (freeSlots p) = {1 ..< n}" "part_shape (part p) = part_shape pt"
    unfolding n(1) by auto
  moreover have "\<exists>m fr. dir_stored cx regs m \<and> dir_ok (length regs) m fr \<and> map_of m = Map.empty"
    using st free map_of.simps(1) by blast
  ultimately show ?thesis using pr(2) unfolding run_state_def by (intro exI [of _ p]) (simp add: regs_def n_def)
qed

lemma prepare_state:
  assumes "ok d" "run_state (BlockSize dev) (blocks d) cx geo p R M D W" and lid: "lid = logfmt_ID cx origin"
    and "logSlot dev cx d p lid True = (Ok i, d1, p1)" "Update_prepare dev cx d p origin f = (r, d', p')"
    and "M lid = None \<Longrightarrow> directoryWriteToken p + 1 \<noteq> 0" and R': "R' = add_regs cx p R lid"
  shows "ok d' \<and> run_state (BlockSize dev) (blocks d') cx geo p' R' (M(lid \<mapsto> i)) (if M lid = None then M(lid \<mapsto> i) else D)
    (add_pending lid (fst (R' ! i)) r W)"
proof -
  from assms(2) obtain m fr where R: "pers_inv (BlockSize dev) (blocks d) p R" "part_shape (part p) = geo_shape geo"
    "map_of (idToSlot p) = M" "D \<subseteq>\<^sub>m M" "dir_stored cx R m" "dir_ok (length R) m fr" "map_of m = D"
    "\<forall>w \<in> W. pending_ok p R w" by (rule run_stateE)
  from prepare_open [OF assms(1) R(1) assms(5) lid assms(4) _ R'] R(3) assms(6)
  have X: "ok d'" "pers_inv (BlockSize dev) (blocks d') p' R'" "M lid = None \<Longrightarrow> dir_stored cx R' (idToSlot p')"
    "map_of (idToSlot p') = M(lid \<mapsto> i)" "s_journal (p_slots (part p') ! i) \<noteq> None" "still_open (part p) (part p')"
    "\<And>s t b. r = Ok (s, t, b) \<Longrightarrow> s = i \<and> t = snd (R' ! i)" by auto
  have len: "length R' = length R" and same: "\<forall>j. 0 < j \<longrightarrow> R' ! j = R ! j" by (simp_all add: R' add_regs_def)
  have known: "M(lid \<mapsto> i) = M \<and> R' = R" if "M lid \<noteq> None"
  proof -
    have "M lid = Some i" using that assms(4) R(3) by (auto simp: logSlot_def)
    then show ?thesis using R(3) by (auto simp: R' add_regs_def fun_upd_idem)
  qed
  have le: "M \<subseteq>\<^sub>m M(lid \<mapsto> i)" using known by (cases "M lid") (auto simp: map_le_def)
  have "dir_ok (length R') (idToSlot p') (freeSlots p')" using X(2) by (simp add: pers_inv_def)
  then have dir: "\<exists>m fr. dir_stored cx R' m \<and> dir_ok (length R') m fr \<and> map_of m = (if M lid = None then M(lid \<mapsto> i) else D)"
    using X(3,4) R(5-7) known by (cases "M lid = None") auto
  have "\<forall>w \<in> W. pending_ok p' R' w" using R(8) pending_ok_keep [OF _ X(6) R(1) _ same] le X(4) R(3) by simp
  moreover have "pending_ok p' R' (lid, w, fst (R' ! i))" if "r = Ok w" for w
    using X(7) that X(4,5) by (cases w) auto
  ultimately have "\<forall>w \<in> add_pending lid (fst (R' ! i)) r W. pending_ok p' R' w"
    by (auto simp: add_pending_def split: res.splits)
  moreover have "part_shape (part p') = geo_shape geo" using X(6) R(2) by (simp add: still_open_def)
  moreover have "(if M lid = None then M(lid \<mapsto> i) else D) \<subseteq>\<^sub>m M(lid \<mapsto> i)" using R(4) le map_le_trans by auto
  ultimately show ?thesis using X(1,2,4) dir unfolding run_state_def by blast
qed

lemma unstored_state:
  assumes "ok d" "run_state (BlockSize dev) (blocks d) cx geo p R M D W" and lid: "lid = logfmt_ID cx origin"
    and "M lid = None" "freeSlots p = i # fs" "logSlot dev cx d p lid True = (Err e, d', p')" "directoryWriteToken p + 1 \<noteq> 0"
    and "failed_visible (Err e) (blocks d) (blocks d') (p_slots (part p') ! 0) (dir_bytes cx (idToSlot p'))"
  shows "ok d' \<and> run_state (BlockSize dev) (blocks d') cx geo p' R (M(lid \<mapsto> i)) D W"
proof -
  from assms(2) obtain m fr where R: "pers_inv (BlockSize dev) (blocks d) p R" "part_shape (part p) = geo_shape geo"
    "map_of (idToSlot p) = M" "D \<subseteq>\<^sub>m M" "dir_stored cx R m" "dir_ok (length R) m fr" "map_of m = D"
    "\<forall>w \<in> W. pending_ok p R w" by (rule run_stateE)
  have idok: "id_ok lid" using logfmt_id_ok lid by simp
  have none: "map_of (idToSlot p) lid = None" using R(3) assms(4) by simp
  from logSlot_unstored [OF assms(1) R(1) assms(6) idok none assms(5,7,8)]
  have X: "ok d'" "pers_inv (BlockSize dev) (blocks d') p' R" "map_of (idToSlot p') = M(lid \<mapsto> i)"
    "\<And>k. k \<noteq> 0 \<Longrightarrow> p_slots (part p') ! k = p_slots (part p) ! k" "part_shape (part p') = part_shape (part p)"
    using R(3) by simp_all
  have le: "M \<subseteq>\<^sub>m M(lid \<mapsto> i)" using assms(4) by (auto simp: map_le_def)
  have "s_journal (p_slots (part p') ! 0) \<noteq> None" using X(2) Slot_Read_open unfolding pers_inv_def by blast
  then have "s_journal (p_slots (part p') ! k) \<noteq> None" if "s_journal (p_slots (part p) ! k) \<noteq> None" for k
    using that X(4) by (cases "k = 0") auto
  then have so: "still_open (part p) (part p')" using X(5) by (simp add: still_open_def)
  have "\<forall>w \<in> W. pending_ok p' R w" using R(8) pending_ok_keep [where regs' = R, OF _ so R(1)] le X(3) R(3) by simp
  then show ?thesis using X R(2,5-7) map_le_trans [OF R(4) le] unfolding run_state_def by (metis (no_types))
qed

text \<open>A write to one register: the pending updates of other logs are untouched, those of this log are outdated.\<close>

lemma pending_ok_write:
  assumes "pending_ok p R v" "idToSlot p' = idToSlot p" "i < length R" "snd (R ! i) + 1 \<noteq> 0"
    and "\<And>k. k \<noteq> i \<Longrightarrow> p_slots (part p') ! k = p_slots (part p) ! k" "s_journal (p_slots (part p') ! i) \<noteq> None"
  shows "pending_ok p' R v \<and> pending_ok p' (R[i := (b, snd (R ! i) + 1)]) v"
proof -
  obtain lid j t x base where v: "v = (lid, (j, t, x), base)" by (metis surj_pair)
  have open_j: "s_journal (p_slots (part p') ! j) \<noteq> None" using assms(1,5,6) by (cases "j = i") (simp_all add: v)
  have "unat (snd (R ! i) + 1) = Suc (unat (snd (R ! i)))"
    using assms(4) unatSuc [of "snd (R ! i)"] by (simp add: add.commute)
  moreover from this have "t \<noteq> snd (R ! i) + 1" if "j = i" using assms(1) that by (auto simp: v)
  ultimately show ?thesis using assms(1-3) open_j by (cases "j = i") (simp_all add: v)
qed

lemma commit_state:
  assumes "ok d" "run_state (BlockSize dev) (blocks d) cx geo p R M D W" "(lid, (i, t, b), base) \<in> W"
    and "Update_commit dev d p (i, t, b) = (r, d', p')"
    and "safe_data (BlockSize dev) b" "snd (R ! i) + 1 \<noteq> 0"
    and "failed_visible r (blocks d) (blocks d') (p_slots (part p') ! i) b"
  shows "ok d' \<and> run_state (BlockSize dev) (blocks d') cx geo p' (if r = Ok () then R[i := (b, t + 1)] else R) M D
      (W - {(lid, (i, t, b), base)}) \<and> freeSlots p' = freeSlots p \<and> M lid = Some i \<and>
    (r = Ok () \<longrightarrow> R ! i = (base, t)) \<and> (\<forall>y. r \<noteq> Panic y)"
proof -
  let ?bs = "BlockSize dev"
  from assms(2) obtain m fr where R: "pers_inv ?bs (blocks d) p R" "part_shape (part p) = geo_shape geo"
    "map_of (idToSlot p) = M" "D \<subseteq>\<^sub>m M" "dir_stored cx R m" "dir_ok (length R) m fr" "map_of m = D"
    "\<forall>w \<in> W. pending_ok p R w" by (rule run_stateE)
  have pd: "map_of (idToSlot p) lid = Some i" "s_journal (p_slots (part p) ! i) \<noteq> None"
    "t = snd (R ! i) \<Longrightarrow> base = fst (R ! i)" using R(8) assms(3) by fastforce+
  have i: "0 < i" "i < length R" using pers_slot [OF R(1) pd(1)] by simp_all
  have rd: "Slot_Read (p_slots (part p) ! i) = Ok (R ! i)"
    using R(1) i(2) pd(2) by (intro slot_read_open) (auto simp: pers_inv_def)
  from commit_slot [OF assms(4), of "blocks d" "blocks d'" "p_slots (part p') ! i" b] assms(7) obtain r0 where
    w: "slot_CheckAndWrite dev d p i t b = (r0, d', p')" "r = Ok () \<longleftrightarrow> r0 = Ok ()" "\<And>y. r = Panic y \<Longrightarrow> r0 = Panic y"
      "failed_visible r0 (blocks d) (blocks d') (p_slots (part p') ! i) b" by blast
  from pers_write_log [OF assms(1) R(1) pd(1) rd w(1) assms(5,6) w(4)]
  have X: "ok d'" "\<And>y. r0 \<noteq> Panic y" "r0 = Ok () \<Longrightarrow> t = snd (R ! i)"
    "pers_inv ?bs (blocks d') p' (if r0 = Ok () then R[i := (b, snd (R ! i) + 1)] else R)"
    "p' = p\<lparr>part := part p'\<rparr>" "\<And>k. k \<noteq> i \<Longrightarrow> p_slots (part p') ! k = p_slots (part p) ! k"
    "part_shape (part p') = part_shape (part p)" "s_journal (p_slots (part p') ! i) \<noteq> None"
    by blast+
  have ids: "idToSlot p' = idToSlot p" "freeSlots p' = freeSlots p" by (subst X(5), simp)+
  define R' where "R' = (if r = Ok () then R[i := (b, t + 1)] else R)"
  have R': "R' = (if r0 = Ok () then R[i := (b, snd (R ! i) + 1)] else R)" using X(3) w(2) by (auto simp: R'_def)
  have "\<forall>v \<in> W - {(lid, (i, t, b), base)}. pending_ok p' R' v"
    using R(8) pending_ok_write [OF _ ids(1) i(2) assms(6) X(6,8)] unfolding R' by simp
  moreover have "dir_stored cx R' m" "length R' = length R" using R(5) i(1) dir_stored_same [of cx R m R'] by (simp_all add: R')
  ultimately have "run_state ?bs (blocks d') cx geo p' R' M D (W - {(lid, (i, t, b), base)})"
    using X(4,7) R(2-4,6,7) unfolding run_state_def R' [symmetric] ids by auto
  moreover have "r = Ok () \<longrightarrow> R ! i = (base, t)" using pd(3) X(3) w(2) by (cases "R ! i") auto
  ultimately show ?thesis using X(1,2) w(3) ids(2) pd(1) R(3) unfolding R'_def by blast
qed

lemma pers_run_state:
  "pers_run dev blocks ok cx geo d p R M D W \<Longrightarrow>
    ok d \<and> run_state (BlockSize dev) (blocks d) cx geo p R M D W \<and> (\<exists>pt. OpenPartition geo = Ok pt)"
proof (induction rule: pers_run.induct)
  case (r_init d pt p)
  then show ?case using init_state [OF r_init(1-6)] by auto
next
  case (r_latest d p R M D W origin r d' p')
  then have st: "ok d" "run_state (BlockSize dev) (blocks d) cx geo p R M D W" by blast+
  from st(2) obtain m fr where R: "pers_inv (BlockSize dev) (blocks d) p R" "part_shape (part p) = geo_shape geo"
    "map_of (idToSlot p) = M" "D \<subseteq>\<^sub>m M" "dir_stored cx R m" "dir_ok (length R) m fr" "map_of m = D"
    "\<forall>w \<in> W. pending_ok p R w" by (rule run_stateE)
  from Latest_rep [OF st(1) R(1), of origin] r_latest(2) obtain pt where L: "d' = d" "p' = p\<lparr>part := pt\<rparr>"
    "pers_inv (BlockSize dev) (blocks d) p' R" "still_open (part p) (part p')" by auto
  have "\<forall>w \<in> W. pending_ok p' R w" using R(8) pending_ok_keep [where regs' = R, OF _ L(4) R(1)] L(2) by simp
  moreover have "idToSlot p' = idToSlot p" "part_shape (part p') = geo_shape geo"
    using L(2,4) R(2) by (simp_all add: still_open_def)
  ultimately have "run_state (BlockSize dev) (blocks d') cx geo p' R M D W"
    unfolding run_state_def using L(1,3) R(3-7) by auto
  then show ?case using r_latest L(1) by simp
next
  case (r_prepared d p R M D W lid origin i d1 p1 f r d' p' R')
  then show ?case using prepare_state [OF _ _ r_prepared(2-6)] by blast
next
  case (r_full d p R M D W origin f r d' p')
  then have "map_of (idToSlot p) (logfmt_ID cx origin) = None" by (simp add: run_state_def)
  then have "d' = d" "p' = p" using r_full(3,4) by (auto simp: Update_prepare_def logSlot_def addLog_def)
  then show ?case using r_full by simp
next
  case (r_unstored d p R M D W lid origin i fs e d1 p1 f r d' p')
  then have "d1 = d'" "p1 = p'" by (auto simp: Update_prepare_def)
  then show ?case using r_unstored unstored_state [of d geo p R M D W lid origin i fs e d' p'] by blast
next
  case (r_commit d p R M D W lid i t b base r d' p')
  then show ?case using commit_state [of d geo p R M D W lid i t b base r d' p'] by blast
next
  case (r_restart d p R M D W pt p')
  then obtain p1 where p1: "Init dev cx d (NewSlotPersistence pt) = (Ok (), p1)"
    "run_state (BlockSize dev) (blocks d) cx geo p1 R D D {}" using restart_state [of d geo p R M D W pt] by blast
  have "p1 = p'" using p1(1) r_restart(3) by simp
  then show ?case using p1(2) r_restart by simp
qed

text \<open>
  In every state \<open>Latest\<close> answers from the slot that the directory in memory has for the log. A restart succeeds, and
  \<open>Latest\<close> then answers from the slot that the stored directory has for the log.
\<close>

lemma run_latest:
  assumes "ok d" "run_state (BlockSize dev) (blocks d) cx geo p R M D W"
  shows "fst (Latest dev cx d p origin) = latest_of cx (map_option ((!) R) (M (logfmt_ID cx origin)))"
proof -
  have "pers_inv (BlockSize dev) (blocks d) p R" "map_of (idToSlot p) = M" using assms(2) by (simp_all add: run_state_def)
  with Latest_rep [OF assms(1), of p R origin] show ?thesis by (auto simp: log_reg_def)
qed

lemma run_recover:
  assumes "pers_run dev blocks ok cx geo d p R M D W"
  shows "fst (Latest dev cx d p origin) = latest_of cx (map_option ((!) R) (M (logfmt_ID cx origin))) \<and> D \<subseteq>\<^sub>m M \<and>
    (\<exists>pt p'. OpenPartition geo = Ok pt \<and> Init dev cx d (NewSlotPersistence pt) = (Ok (), p') \<and>
      (\<forall>origin. fst (Latest dev cx d p' origin) = latest_of cx (map_option ((!) R) (D (logfmt_ID cx origin)))))"
proof -
  from pers_run_state [OF assms] obtain pt where o: "ok d" "run_state (BlockSize dev) (blocks d) cx geo p R M D W"
    "OpenPartition geo = Ok pt" by blast
  have "D \<subseteq>\<^sub>m M" using o(2) by (simp add: run_state_def)
  with restart_state [OF o] run_latest [OF o(1)] o(2,3) show ?thesis by blast
qed

end


section \<open>Runs in which the directory is stored\<close>

text \<open>
  The runs without a failed write of the directory: a log that has a slot has it in the stored directory, too, and the
  slots that are not in use are empty. The state is then the register of each log (\<open>S\<close>).
\<close>

inductive pers_reach :: "'d BlockReaderWriter \<Rightarrow> ('d \<Rightarrow> bytes list) \<Rightarrow> ('d \<Rightarrow> bool) \<Rightarrow> codec \<Rightarrow> Geometry \<Rightarrow>
    'd \<Rightarrow> SlotPersistence \<Rightarrow> (string \<rightharpoonup> bytes \<times> 32 word) \<Rightarrow> pending set \<Rightarrow> bool"
  for dev blocks ok cx geo where
  k_init: "ok d \<Longrightarrow> geo_ok (BlockSize dev) (length (blocks d)) geo \<Longrightarrow> SlotLengths geo \<noteq> [] \<Longrightarrow>
    length (SlotLengths geo) < W32 \<Longrightarrow>
    \<forall>b \<in> set (jregion (blocks d) (Start geo) (Length geo)). no_magic b \<Longrightarrow> OpenPartition geo = Ok pt \<Longrightarrow>
    Init dev cx d (NewSlotPersistence pt) = (Ok (), p) \<Longrightarrow> pers_reach dev blocks ok cx geo d p Map.empty {}"
| k_latest: "pers_reach dev blocks ok cx geo d p S W \<Longrightarrow> Latest dev cx d p origin = (r, d', p') \<Longrightarrow>
    pers_reach dev blocks ok cx geo d' p' S W"
| k_prepare: "pers_reach dev blocks ok cx geo d p S W \<Longrightarrow>
    Update_prepare dev cx d p origin f = (Ok w, d', p') \<Longrightarrow> directoryWriteToken p + 1 \<noteq> 0 \<Longrightarrow>
    lid = logfmt_ID cx origin \<Longrightarrow> S' = (if S lid = None then S(lid \<mapsto> ([], 0)) else S) \<Longrightarrow>
    pers_reach dev blocks ok cx geo d' p' S' (insert (lid, w, fst (the (S' lid))) W)"
| k_commit: "pers_reach dev blocks ok cx geo d p S W \<Longrightarrow> (lid, (i, t, b), base) \<in> W \<Longrightarrow>
    Update_commit dev d p (i, t, b) = (Ok (), d', p') \<Longrightarrow>
    safe_data (BlockSize dev) b \<Longrightarrow> snd (the (S lid)) + 1 \<noteq> 0 \<Longrightarrow>
    pers_reach dev blocks ok cx geo d' p' (S(lid \<mapsto> (b, t + 1))) (W - {(lid, (i, t, b), base)})"
| k_failed: "pers_reach dev blocks ok cx geo d p S W \<Longrightarrow> (lid, (i, t, b), base) \<in> W \<Longrightarrow>
    Update_commit dev d p (i, t, b) = (Err e, d', p') \<Longrightarrow>
    safe_data (BlockSize dev) b \<Longrightarrow> snd (the (S lid)) + 1 \<noteq> 0 \<Longrightarrow>
    failed_visible (Err e) (blocks d) (blocks d') (p_slots (part p') ! i) b \<Longrightarrow>
    pers_reach dev blocks ok cx geo d' p' S (W - {(lid, (i, t, b), base)})"
| k_restart: "pers_reach dev blocks ok cx geo d p S W \<Longrightarrow> OpenPartition geo = Ok pt \<Longrightarrow>
    Init dev cx d (NewSlotPersistence pt) = (Ok (), p') \<Longrightarrow> pers_reach dev blocks ok cx geo d p' S {}"

definition reg_of :: "(bytes \<times> 32 word) list \<Rightarrow> (string \<rightharpoonup> nat) \<Rightarrow> string \<rightharpoonup> bytes \<times> 32 word" where
  "reg_of R M lid = map_option ((!) R) (M lid)"

lemma dir_ok_free:
  assumes "dir_ok n m free" "dir_ok n m' free'" "map_of m' = map_of m"
  shows "set free' = set free"
proof -
  have "set m' = set m" using same_map_set [OF assms(3)] assms(1,2) by (simp add: dir_ok_def)
  then have "set (map snd m') = set (map snd m)" by simp
  then show ?thesis using assms(1,2) unfolding dir_ok_def by blast
qed

lemma log_reg_of: "map_of (idToSlot p) = M \<Longrightarrow> log_reg p R = reg_of R M"
  by (auto simp: log_reg_def reg_of_def fun_eq_iff)

lemma free_blank_upd: "k \<notin> set (freeSlots p) \<Longrightarrow> free_blank p R \<Longrightarrow> free_blank p (R[k := a])"
  unfolding free_blank_def list_all_iff by (metis nth_list_update_neq)

lemma free_blank_write:
  assumes "pers_inv bs bl p R" "free_blank p R" "map_of (idToSlot p) lid = Some i"
  shows "free_blank p (R[i := a])"
proof -
  have "i \<in> set (map snd (idToSlot p))" using assms(3) by (force dest: map_of_SomeD)
  then have "i \<notin> set (freeSlots p)" using assms(1) unfolding pers_inv_def dir_ok_def by blast
  then show ?thesis using assms(2) by (rule free_blank_upd)
qed

definition pers_state :: "nat \<Rightarrow> bytes list \<Rightarrow> codec \<Rightarrow> Geometry \<Rightarrow> SlotPersistence \<Rightarrow>
    (string \<rightharpoonup> bytes \<times> 32 word) \<Rightarrow> bool" where
  "pers_state bs bl cx geo p S \<longleftrightarrow>
     (\<exists>regs. pers_inv bs bl p regs \<and> dir_stored cx regs (idToSlot p) \<and> part_shape (part p) = geo_shape geo \<and>
        S = log_reg p regs \<and> free_blank p regs)"

context persistence
begin

lemma prepare_registers:
  assumes "ok d" "run_state (BlockSize dev) (blocks d) cx geo p R M D W" "free_blank p R"
    and lid: "lid = logfmt_ID cx origin"
    and "logSlot dev cx d p lid True = (Ok i, d1, p1)" "Update_prepare dev cx d p origin f = (r, d', p')"
    and "M lid = None \<Longrightarrow> directoryWriteToken p + 1 \<noteq> 0" and R': "R' = add_regs cx p R lid"
  shows "free_blank p' R' \<and>
    reg_of R' (M(lid \<mapsto> i)) = (if reg_of R M lid = None then (reg_of R M)(lid \<mapsto> ([], 0)) else reg_of R M)"
proof -
  have P: "pers_inv (BlockSize dev) (blocks d) p R" "map_of (idToSlot p) = M" using assms(2) by (simp_all add: run_state_def)
  from prepare_open [OF assms(1) P(1) assms(6) lid assms(5) _ R'] P(2) assms(7)
  have free: "freeSlots p = (if M lid = None then [i] else []) @ freeSlots p'"
    and inv: "pers_inv (BlockSize dev) (blocks d') p' R'" and map': "map_of (idToSlot p') = M(lid \<mapsto> i)" by auto
  have "0 \<notin> set (freeSlots p)" using P(1) unfolding pers_inv_def dir_ok_def by (metis UnCI atLeastLessThan_iff not_one_le_zero)
  then have "free_blank p R'" using assms(3) free_blank_upd by (simp add: R' add_regs_def)
  then have fb: "free_blank p' R'" using free by (simp add: free_blank_def)
  have i: "0 < i" using pers_slot [OF inv, of lid i] map' by simp
  have slot: "0 < j" if "M k = Some j" for k j using pers_slot [OF P(1)] that P(2) by blast
  have Ri: "R' ! i = (if M lid = None then ([], 0) else R ! i)"
    using i assms(3) free by (cases "M lid") (simp_all add: R' add_regs_def free_blank_def)
  have known: "M lid = Some i" if "M lid \<noteq> None" using that assms(5) P(2) by (auto simp: logSlot_def)
  have "reg_of R' (M(lid \<mapsto> i)) k = (if reg_of R M lid = None then (reg_of R M)(lid \<mapsto> ([], 0)) else reg_of R M) k" for k
    using Ri known slot [of k] by (cases "k = lid"; cases "M k") (auto simp: reg_of_def R' add_regs_def)
  then show ?thesis using fb by (simp add: fun_eq_iff)
qed

text \<open>Such a run is a run of the persistence in which the stored directory is the one in memory.\<close>

lemma pers_reach_run:
  "pers_reach dev blocks ok cx geo d p S W \<Longrightarrow>
    \<exists>R M. pers_run dev blocks ok cx geo d p R M M W \<and> S = reg_of R M \<and> free_blank p R"
proof (induction rule: pers_reach.induct)
  case (k_init d pt p)
  let ?R = "replicate (length (SlotLengths geo)) ([], 0) :: (bytes \<times> 32 word) list"
  have "pers_run dev blocks ok cx geo d p ?R Map.empty Map.empty {}" using k_init by (rule pers_run.r_init)
  moreover have "free_blank p ?R" using init_state [OF k_init(1-6)] k_init(7) by (auto simp: free_blank_def list_all_iff)
  moreover have "Map.empty = reg_of ?R Map.empty" by (simp add: reg_of_def fun_eq_iff)
  ultimately show ?case by blast
next
  case (k_latest d p S W origin r d' p')
  then obtain R M where h: "pers_run dev blocks ok cx geo d p R M M W" "S = reg_of R M" "free_blank p R" by blast
  from pers_run_state [OF h(1)] have "ok d" "pers_inv (BlockSize dev) (blocks d) p R" by (simp_all add: run_state_def)
  from Latest_rep [OF this, of origin] k_latest(2) have "freeSlots p' = freeSlots p" by auto
  with h pers_run.r_latest [OF h(1) k_latest(2)] show ?case by (auto simp: free_blank_def)
next
  case (k_prepare d p S W origin f w d' p' lid S')
  then obtain R M where h: "pers_run dev blocks ok cx geo d p R M M W" "S = reg_of R M" "free_blank p R" by blast
  obtain r1 d1 p1 where l: "logSlot dev cx d p lid True = (r1, d1, p1)" by (metis surj_pair)
  with k_prepare(2,4) obtain i where r1: "r1 = Ok i" by (cases r1) (auto simp: Update_prepare_def)
  define R' where "R' = add_regs cx p R lid"
  note run = pers_run.r_prepared [OF h(1) k_prepare(4) l [unfolded r1] k_prepare(2) k_prepare(3) R'_def]
  from pers_run_state [OF h(1)] have st: "ok d" "run_state (BlockSize dev) (blocks d) cx geo p R M M W" by blast+
  from prepare_registers [OF st h(3) k_prepare(4) l [unfolded r1] k_prepare(2) k_prepare(3) R'_def]
  have X: "free_blank p' R'" "S' = reg_of R' (M(lid \<mapsto> i))" using k_prepare(5) h(2) by simp_all
  have "M(lid \<mapsto> i) = M" if "M lid \<noteq> None"
    using that l r1 st(2) by (auto simp: logSlot_def run_state_def fun_upd_idem)
  then have D: "(if M lid = None then M(lid \<mapsto> i) else M) = M(lid \<mapsto> i)" by auto
  have "add_pending lid (fst (R' ! i)) (Ok w) W = insert (lid, w, fst (the (S' lid))) W"
    by (simp add: add_pending_def X(2) reg_of_def)
  with run [unfolded D] X show ?case by auto
next
  case (k_commit d p S W lid i t b base d' p')
  then obtain R M where h: "pers_run dev blocks ok cx geo d p R M M W" "S = reg_of R M" "free_blank p R" by blast
  from pers_run_state [OF h(1)] have st: "ok d" "run_state (BlockSize dev) (blocks d) cx geo p R M M W" by blast+
  then have P: "pers_inv (BlockSize dev) (blocks d) p R" "map_of (idToSlot p) = M" by (simp_all add: run_state_def)
  have "pending_ok p R (lid, (i, t, b), base)" using st(2) k_commit(2) by (auto simp: run_state_def)
  then have m: "map_of (idToSlot p) lid = Some i" by simp
  have nw: "snd (R ! i) + 1 \<noteq> 0" using k_commit(5) m P(2) by (simp add: h(2) reg_of_def)
  have vis: "failed_visible (Ok ()) (blocks d) (blocks d') (p_slots (part p') ! i) b" by (simp add: failed_visible_def)
  have "freeSlots p' = freeSlots p" using commit_state [OF st k_commit(2-4) nw vis] by blast
  then have "free_blank p' (R[i := (b, t + 1)])" using free_blank_write [OF P(1) h(3) m] by (simp add: free_blank_def)
  moreover have "S(lid \<mapsto> (b, t + 1)) = reg_of (R[i := (b, t + 1)]) M"
    using log_reg_update [OF P(1) m, of "(b, t + 1)"] log_reg_of [OF P(2)] h(2) by simp
  ultimately show ?case using pers_run.r_commit [OF h(1) k_commit(2-4) nw vis] by auto
next
  case (k_failed d p S W lid i t b base e d' p')
  then obtain R M where h: "pers_run dev blocks ok cx geo d p R M M W" "S = reg_of R M" "free_blank p R" by blast
  from pers_run_state [OF h(1)] have st: "ok d" "run_state (BlockSize dev) (blocks d) cx geo p R M M W" by blast+
  have "pending_ok p R (lid, (i, t, b), base)" using st(2) k_failed(2) by (auto simp: run_state_def)
  then have "M lid = Some i" using st(2) by (simp add: run_state_def)
  then have nw: "snd (R ! i) + 1 \<noteq> 0" using k_failed(5) by (simp add: h(2) reg_of_def)
  have "freeSlots p' = freeSlots p" using commit_state [OF st k_failed(2-4) nw k_failed(6)] by blast
  then show ?case using pers_run.r_commit [OF h(1) k_failed(2-4) nw k_failed(6)] h(2,3) by (auto simp: free_blank_def)
next
  case (k_restart d p S W pt p')
  then obtain R M where h: "pers_run dev blocks ok cx geo d p R M M W" "S = reg_of R M" "free_blank p R" by blast
  note run = pers_run.r_restart [OF h(1) k_restart(2,3)]
  from pers_run_state [OF h(1)] pers_run_state [OF run] have "dir_ok (length R) (idToSlot p) (freeSlots p)"
    "dir_ok (length R) (idToSlot p') (freeSlots p')" "map_of (idToSlot p') = map_of (idToSlot p)"
    by (simp_all add: run_state_def pers_inv_def)
  then have "set (freeSlots p') = set (freeSlots p)" by (rule dir_ok_free)
  then show ?case using run h(2,3) by (auto simp: free_blank_def list_all_iff)
qed

text \<open>What the following lemmas use of a state: its registers, and that the directory in memory is stored.\<close>

lemma pers_reach_state:
  assumes "pers_reach dev blocks ok cx geo d p S W"
  shows "ok d \<and> pers_state (BlockSize dev) (blocks d) cx geo p S"
proof -
  from pers_reach_run [OF assms] obtain R M where h: "pers_run dev blocks ok cx geo d p R M M W" "S = reg_of R M"
    "free_blank p R" by blast
  from pers_run_state [OF h(1)] have st: "ok d" "run_state (BlockSize dev) (blocks d) cx geo p R M M W" by blast+
  from st(2) obtain m fr where X: "pers_inv (BlockSize dev) (blocks d) p R" "part_shape (part p) = geo_shape geo"
    "map_of (idToSlot p) = M" "dir_stored cx R m" "map_of m = M" by (rule run_stateE)
  moreover have "dir_stored cx R (idToSlot p)" using X(3-5) by (simp add: dir_stored_def)
  moreover have "S = log_reg p R" using log_reg_of [OF X(3)] h(2) by simp
  ultimately show ?thesis using st(1) h(3) unfolding pers_state_def by blast
qed

text \<open>\<open>Latest\<close> answers from the register of the log, and so it does after a restart, which succeeds.\<close>

lemma pers_recover:
  assumes "pers_reach dev blocks ok cx geo d p S W"
  shows "fst (Latest dev cx d p origin) = latest_of cx (S (logfmt_ID cx origin)) \<and>
    (\<exists>pt p'. OpenPartition geo = Ok pt \<and> Init dev cx d (NewSlotPersistence pt) = (Ok (), p') \<and>
      fst (Latest dev cx d p' origin) = latest_of cx (S (logfmt_ID cx origin)))"
  using pers_reach_run [OF assms] run_recover by (fastforce simp: reg_of_def)

text \<open>The initial state on a blank device.\<close>

lemma fresh_Init:
  assumes "ok d" "geo_ok (BlockSize dev) (length (blocks d)) geo" "SlotLengths geo \<noteq> []" "length (SlotLengths geo) < W32"
    and "\<forall>b \<in> set (jregion (blocks d) (Start geo) (Length geo)). no_magic b" "OpenPartition geo = Ok pt"
  shows "\<exists>p. Init dev cx d (NewSlotPersistence pt) = (Ok (), p) \<and> pers_reach dev blocks ok cx geo d p Map.empty {} \<and>
    run_state (BlockSize dev) (blocks d) cx geo p (replicate (length (SlotLengths geo)) ([], 0)) Map.empty Map.empty {} \<and>
    distinct (freeSlots p) \<and> set (freeSlots p) = {1 ..< length (SlotLengths geo)} \<and>
    directoryWriteToken p = 0 \<and> idToSlot p = []"
proof -
  from init_state [OF assms] obtain p where p: "Init dev cx d (NewSlotPersistence pt) = (Ok (), p)"
    "set (freeSlots p) = {1 ..< length (SlotLengths geo)}"
    "run_state (BlockSize dev) (blocks d) cx geo p (replicate (length (SlotLengths geo)) ([], 0)) Map.empty Map.empty {}" by blast
  from p(3) assms(3) have "directoryWriteToken p = 0" "map_of (idToSlot p) = Map.empty" "distinct (freeSlots p)"
    by (simp_all add: run_state_def pers_inv_def dir_ok_def)
  moreover from this(2) have "idToSlot p = []" by (cases "idToSlot p") (auto simp: fun_eq_iff split: if_splits)
  moreover from p(1) have "pers_reach dev blocks ok cx geo d p Map.empty {}" using assms by (intro pers_reach.k_init) auto
  ultimately show ?thesis using p by blast
qed

text \<open>Opening the storage again, after any run.\<close>

lemma restart_run:
  assumes "pers_run dev blocks ok cx geo d p R M D W"
  shows "\<exists>pt p'. OpenPartition geo = Ok pt \<and> Init dev cx d (NewSlotPersistence pt) = (Ok (), p') \<and>
    pers_run dev blocks ok cx geo d p' R D D {}"
  using run_recover [OF assms] pers_run.r_restart [OF assms] by blast

text \<open>An update that commits started from the current data of its log: no other update came between.\<close>

lemma pers_atomic:
  assumes "pers_reach dev blocks ok cx geo d p S W" "(lid, (i, t, b), base) \<in> W"
    and "Update_commit dev d p (i, t, b) = (Ok (), d', p')"
    and "safe_data (BlockSize dev) b" "snd (the (S lid)) + 1 \<noteq> 0"
  shows "S lid = Some (base, t)"
proof -
  from pers_reach_run [OF assms(1)] obtain R M where h: "pers_run dev blocks ok cx geo d p R M M W" "S = reg_of R M" by blast
  from pers_run_state [OF h(1)] have st: "ok d" "run_state (BlockSize dev) (blocks d) cx geo p R M M W" by blast+
  have "pending_ok p R (lid, (i, t, b), base)" using st(2) assms(2) by (auto simp: run_state_def)
  then have m: "M lid = Some i" using st(2) by (simp add: run_state_def)
  then have nw: "snd (R ! i) + 1 \<noteq> 0" using assms(5) by (simp add: h(2) reg_of_def)
  have vis: "failed_visible (Ok ()) (blocks d) (blocks d') (p_slots (part p') ! i) b" by (simp add: failed_visible_def)
  show ?thesis using commit_state [OF st assms(2-4) nw vis] m by (simp add: h(2) reg_of_def)
qed

text \<open>\<open>Update\<close> as a whole, in any run, of a log that has a slot.\<close>

lemma Update_run:
  assumes "pers_run dev blocks ok cx geo d p R M D W" and lid: "lid = logfmt_ID cx origin" and "M lid = Some i"
    and "Update dev cx d p origin f = (Ok (), d', p')" "snd (R ! i) + 1 \<noteq> 0"
    and "\<forall>cur new. f cur = Ok new \<longrightarrow> safe_data (BlockSize dev) (marshalCheckpoint new)"
  shows "\<exists>cur new W'. unmarshalCheckpoint cx (fst (R ! i)) = Ok cur \<and> f cur = Ok new \<and>
    pers_run dev blocks ok cx geo d' p' (R[i := (marshalCheckpoint new, snd (R ! i) + 1)]) M D W'"
proof -
  from pers_run_state [OF assms(1)] have st: "ok d" "run_state (BlockSize dev) (blocks d) cx geo p R M D W" by blast+
  then have P: "pers_inv (BlockSize dev) (blocks d) p R" "map_of (idToSlot p) lid = Some i"
    using assms(3) by (auto simp: run_state_def)
  have l: "logSlot dev cx d p lid True = (Ok i, d, p)" using P(2) by (simp add: logSlot_def)
  have R': "R = add_regs cx p R lid" using P(2) by (simp add: add_regs_def)
  obtain r1 d1 p1 where pr: "Update_prepare dev cx d p origin f = (r1, d1, p1)" by (metis surj_pair)
  with assms(4) obtain s t b where r1: "r1 = Ok (s, t, b)" by (cases r1) (auto simp: Update_def)
  have cm: "Update_commit dev d1 p1 (s, t, b) = (Ok (), d', p')" using assms(4) pr r1 by (simp add: Update_def)
  from prepare_open [OF st(1) P(1) pr [unfolded r1] lid l _ R'] P(2) obtain cur new where
    X: "s = i" "t = snd (R ! i)" "unmarshalCheckpoint cx (fst (R ! i)) = Ok cur" "f cur = Ok new" "b = marshalCheckpoint new" by auto
  have "pers_run dev blocks ok cx geo d1 p1 R (M(lid \<mapsto> i)) (if M lid = None then M(lid \<mapsto> i) else D)
      (add_pending lid (fst (R ! i)) r1 W)"
    using pers_run.r_prepared [OF assms(1) lid l pr _ R'] assms(3) by simp
  then have "pers_run dev blocks ok cx geo d1 p1 R M D (insert (lid, (i, t, b), fst (R ! i)) W)"
    using assms(3) X(1) by (simp add: add_pending_def r1 fun_upd_idem)
  from pers_run.r_commit [OF this _ cm [unfolded X(1)], of lid "fst (R ! i)"] assms(5,6) X show ?thesis
    by (auto simp: failed_visible_def)
qed

text \<open>\<open>Update\<close> as a whole, and what \<open>Latest\<close> returns afterwards.\<close>

lemma Update_reach:
  assumes "pers_reach dev blocks ok cx geo d p S W" "Update dev cx d p origin f = (Ok (), d', p')"
    and "directoryWriteToken p + 1 \<noteq> 0" and lid: "lid = logfmt_ID cx origin"
    and "\<forall>a. S lid = Some a \<longrightarrow> snd a + 1 \<noteq> 0"
    and "\<forall>cur new. f cur = Ok new \<longrightarrow> safe_data (BlockSize dev) (marshalCheckpoint new)"
  shows "\<exists>cur new rv W'. unmarshalCheckpoint cx (case S lid of None \<Rightarrow> [] | Some a \<Rightarrow> fst a) = Ok cur \<and> f cur = Ok new \<and>
    pers_reach dev blocks ok cx geo d' p' (S(lid \<mapsto> (marshalCheckpoint new, rv))) W'"
proof -
  from pers_reach_run [OF assms(1)] obtain R M where h: "pers_run dev blocks ok cx geo d p R M M W" "S = reg_of R M"
    "free_blank p R" by blast
  from pers_run_state [OF h(1)] have st: "ok d" "run_state (BlockSize dev) (blocks d) cx geo p R M M W" by blast+
  then have P: "pers_inv (BlockSize dev) (blocks d) p R" "map_of (idToSlot p) = M" by (simp_all add: run_state_def)
  obtain r1 d1 p1 where pr: "Update_prepare dev cx d p origin f = (r1, d1, p1)" by (metis surj_pair)
  with assms(2) obtain i t b where r1: "r1 = Ok (i, t, b)" by (cases r1) (auto simp: Update_def)
  have cm: "Update_commit dev d1 p1 (i, t, b) = (Ok (), d', p')" using assms(2) pr r1 by (simp add: Update_def)
  obtain rl dl pl where l: "logSlot dev cx d p lid True = (rl, dl, pl)" by (metis surj_pair)
  with pr r1 lid obtain j where rl: "rl = Ok j" by (cases rl) (auto simp: Update_prepare_def)
  define R' where "R' = add_regs cx p R lid"
  from prepare_open [OF st(1) P(1) pr [unfolded r1] lid l [unfolded rl] assms(3) R'_def] obtain cur new where
    X: "unmarshalCheckpoint cx (fst (R' ! j)) = Ok cur" "f cur = Ok new" "b = marshalCheckpoint new" by auto
  define S' where "S' = (if S lid = None then S(lid \<mapsto> ([], 0)) else S)"
  from prepare_registers [OF st h(3) lid l [unfolded rl] pr assms(3) R'_def]
  have "S' = reg_of R' (M(lid \<mapsto> j))" by (simp add: S'_def h(2))
  then have S'l: "S' lid = Some (R' ! j)" by (simp add: reg_of_def)
  have nw: "snd (the (S' lid)) + 1 \<noteq> 0" using assms(5) by (auto simp: S'_def)
  have cur: "unmarshalCheckpoint cx (case S lid of None \<Rightarrow> [] | Some a \<Rightarrow> fst a) = Ok cur"
    using X(1) S'l by (cases "S lid") (auto simp: S'_def dest: sym)
  let ?w = "(lid, (i, t, b), fst (the (S' lid)))"
  have "pers_reach dev blocks ok cx geo d1 p1 S' (insert ?w W)"
    by (rule pers_reach.k_prepare [OF assms(1) pr [unfolded r1] assms(3) lid S'_def])
  then have "pers_reach dev blocks ok cx geo d' p' (S'(lid \<mapsto> (b, t + 1))) (insert ?w W - {?w})"
    using X(2,3) assms(6) nw cm by (intro pers_reach.k_commit) auto
  moreover have "S'(lid \<mapsto> (b, t + 1)) = S(lid \<mapsto> (b, t + 1))" by (simp add: S'_def)
  ultimately show ?thesis using cur X(2,3) by auto
qed

lemma Update_Latest:
  assumes "pers_reach dev blocks ok cx geo d p S W" "Update dev cx d p origin f = (Ok (), d', p')"
    and "directoryWriteToken p + 1 \<noteq> 0" and lid: "lid = logfmt_ID cx origin"
    and "\<forall>a. S lid = Some a \<longrightarrow> snd a + 1 \<noteq> 0"
    and "\<forall>cur new. f cur = Ok new \<longrightarrow> safe_data (BlockSize dev) (marshalCheckpoint new)"
  shows "\<exists>cur new. unmarshalCheckpoint cx (case S lid of None \<Rightarrow> [] | Some a \<Rightarrow> fst a) = Ok cur \<and> f cur = Ok new \<and>
    fst (Latest dev cx d' p' origin) = Ok new \<and>
    (\<forall>other. logfmt_ID cx other \<noteq> lid \<longrightarrow> fst (Latest dev cx d' p' other) = fst (Latest dev cx d p other))"
proof -
  from Update_reach [OF assms] obtain cur new rv W' where
    U: "unmarshalCheckpoint cx (case S lid of None \<Rightarrow> [] | Some a \<Rightarrow> fst a) = Ok cur" "f cur = Ok new"
      "pers_reach dev blocks ok cx geo d' p' (S(lid \<mapsto> (marshalCheckpoint new, rv))) W'" by blast
  have "fst (Latest dev cx d' p' origin) = latest_of cx (Some (marshalCheckpoint new, rv))"
    using pers_recover [OF U(3), of origin] by (simp add: lid)
  moreover have "marshalCheckpoint new \<noteq> []" by (simp add: marshalCheckpoint_def rawRecordMagic_def)
  ultimately have "fst (Latest dev cx d' p' origin) = Ok new" by (simp add: latest_of_def)
  moreover have "fst (Latest dev cx d' p' other) = fst (Latest dev cx d p other)" if "logfmt_ID cx other \<noteq> lid" for other
    using pers_recover [OF U(3), of other] pers_recover [OF assms(1), of other] that by simp
  ultimately show ?thesis using U(1,2) by blast
qed

lemma journal_fits_live:
  assumes "ok d" "part_rep (BlockSize dev) (blocks d) (part p) regs" "i < length regs"
    and "Slot_Read (p_slots (part p) ! i) = Ok (regs ! i)" "reliable dev blocks ok"
    and "entryHeaderSize + length data \<le> s_length (p_slots (part p) ! i) * BlockSize dev div minEntries"
  shows "\<exists>d' p'. slot_CheckAndWrite dev d p i (snd (regs ! i)) data = (Ok (), d', p')"
proof -
  have i: "i < length (p_slots (part p))"
    using assms(2,3) by (auto simp: part_rep_def dest: list_all2_lengthD)
  note R = part_rep_nth [OF assms(2) i]
  from assms(4) obtain j where j: "s_journal (p_slots (part p) ! i) = Some j" "Revision (current j) = snd (regs ! i)"
    by (cases "s_journal (p_slots (part p) ! i)") (auto simp: Slot_Read_def dest: arg_cong [of _ _ snd])
  have "journal_inv (BlockSize dev) (blocks d) (s_start (p_slots (part p) ! i)) (s_length (p_slots (part p) ! i)) j"
    using R(1) j(1) by (simp add: slot_rep_def)
  from update_succeeds [OF assms(1) R(3) this assms(5,6)] show ?thesis
    using j by (auto simp: slot_CheckAndWrite_def Slot_CheckAndWrite_def)
qed

lemma pers_lengths:
  assumes "pers_inv bs bl p regs" "part_shape (part p) = geo_shape geo" "i < length regs"
  shows "s_length (p_slots (part p) ! i) = SlotLengths geo ! i" "length regs = length (SlotLengths geo)"
proof -
  have n: "length (p_slots (part p)) = length regs"
    using assms(1) by (auto simp: pers_inv_def part_rep_def dest: list_all2_lengthD)
  have ls: "map s_length (p_slots (part p)) = SlotLengths geo"
  proof -
    have "map s_length (open_slots b ls) = ls" for b ls by (induction ls arbitrary: b) simp_all
    moreover have "map snd (part_shape (part p)) = map snd (geo_shape geo)" using assms(2) by simp
    ultimately show ?thesis by (simp add: part_shape_def geo_shape_def comp_def)
  qed
  show "length regs = length (SlotLengths geo)" using arg_cong [OF ls, of length] n by simp
  show "s_length (p_slots (part p) ! i) = SlotLengths geo ! i"
    using arg_cong [OF ls, of "\<lambda>xs. xs ! i"] n assms(3) by simp
qed

lemma logSlot_live:
  assumes "ok d" "pers_inv (BlockSize dev) (blocks d) p regs" "part_shape (part p) = geo_shape geo"
    and "reliable dev blocks ok" "id_ok lid"
    and "map_of (idToSlot p) lid = None \<Longrightarrow> freeSlots p \<noteq> [] \<and>
      entryHeaderSize + length (dir_bytes cx (AList.update lid (hd (freeSlots p)) (idToSlot p))) \<le>
        SlotLengths geo ! 0 * BlockSize dev div minEntries"
  shows "\<exists>i d' p'. logSlot dev cx d p lid True = (Ok i, d', p')"
proof (cases "map_of (idToSlot p) lid")
  case (Some i)
  then show ?thesis by (simp add: logSlot_def)
next
  case None
  note P = assms(2) [unfolded pers_inv_def]
  from assms(6) [OF None] obtain f fs where free: "freeSlots p = f # fs" by (cases "freeSlots p") auto
  let ?m = "AList.update lid f (idToSlot p)"
  let ?p = "p\<lparr>freeSlots := fs, idToSlot := ?m\<rparr>"
  have "dir_ok (length regs) ?m fs" using dir_ok_add [of _ _ f fs] P None assms(5) by (simp add: free)
  then obtain b where b: "yaml_MarshalMap cx ?m = Ok b" using marshal_dir P by blast
  have l0: "s_length (p_slots (part p) ! 0) = SlotLengths geo ! 0" using pers_lengths [OF assms(2,3), of 0] P by simp
  have "\<exists>d' p'. slot_CheckAndWrite dev d ?p 0 (snd (regs ! 0)) b = (Ok (), d', p')"
  proof (rule journal_fits_live [OF assms(1)])
    show "entryHeaderSize + length b \<le> s_length (p_slots (part ?p) ! 0) * BlockSize dev div minEntries"
      using assms(6) [OF None] b l0 by (simp add: free dir_bytes_def)
  qed (use P assms(4) in simp_all)
  then show ?thesis using None b P by (auto simp: logSlot_def addLog_def storeDirectory_def free)
qed

text \<open>An update of a log that has a slot, on a reliable device.\<close>

lemma Update_mapped:
  assumes "ok d" "pers_inv (BlockSize dev) (blocks d) p regs" "part_shape (part p) = geo_shape geo"
    and "reliable dev blocks ok" and lid: "lid = logfmt_ID cx origin"
    and "logSlot dev cx d0 p0 lid True = (Ok i, d, p)" "map_of (idToSlot p) lid = Some i"
    and "unmarshalCheckpoint cx (fst (regs ! i)) = Ok cur" "f cur = Ok new"
    and "\<forall>l \<in> set (SlotLengths geo). entryHeaderSize + length (marshalCheckpoint new) \<le> l * BlockSize dev div minEntries"
  shows "\<exists>pt d' p'. Update dev cx d0 p0 origin f = (Ok (), d', p') \<and>
    slot_CheckAndWrite dev d (p\<lparr>part := pt\<rparr>) i (snd (regs ! i)) (marshalCheckpoint new) = (Ok (), d', p') \<and>
    pers_inv (BlockSize dev) (blocks d) (p\<lparr>part := pt\<rparr>) regs \<and> Slot_Read (p_slots pt ! i) = Ok (regs ! i) \<and>
    part_shape pt = part_shape (part p)"
proof -
  let ?bs = "BlockSize dev"
  have i: "0 < i" "i < length regs" using pers_slot [OF assms(2,7)] by simp_all
  from pers_open_slot [OF assms(1,2) i(2)] obtain pt where
    o: "Partition_Open dev d (part p) i = (Ok i, pt)" "pers_inv ?bs (blocks d) (p\<lparr>part := pt\<rparr>) regs"
      "Slot_Read (p_slots pt ! i) = Ok (regs ! i)" "still_open (part p) pt" by blast
  obtain y rv where yr: "regs ! i = (y, rv)" by fastforce
  have prep: "Update_prepare dev cx d0 p0 origin f = (Ok (i, rv, marshalCheckpoint new), d, p\<lparr>part := pt\<rparr>)"
    using assms(6,8,9) o(1,3) yr by (simp add: Update_prepare_def lid Let_def)
  have shape: "part_shape (part (p\<lparr>part := pt\<rparr>)) = geo_shape geo" using o(4) assms(3) by (simp add: still_open_def)
  note len = pers_lengths [OF o(2) shape i(2)]
  have "\<exists>d' p'. slot_CheckAndWrite dev d (p\<lparr>part := pt\<rparr>) i (snd (regs ! i)) (marshalCheckpoint new) = (Ok (), d', p')"
  proof (rule journal_fits_live [OF assms(1) _ i(2) _ assms(4)])
    show "entryHeaderSize + length (marshalCheckpoint new) \<le>
        s_length (p_slots (part (p\<lparr>part := pt\<rparr>)) ! i) * ?bs div minEntries"
      using assms(10) len i(2) by simp
  qed (use o(2,3) in \<open>simp_all add: pers_inv_def\<close>)
  then obtain d' p' where w: "slot_CheckAndWrite dev d (p\<lparr>part := pt\<rparr>) i (snd (regs ! i)) (marshalCheckpoint new) = (Ok (), d', p')"
    by blast
  have "Update dev cx d0 p0 origin f = (Ok (), d', p')" using prep yr w by (simp add: Update_def Update_commit_def)
  then show ?thesis using w o(2-4) by (intro exI [of _ pt] exI [of _ d'] exI [of _ p']) (simp add: still_open_def)
qed

text \<open>On a reliable device an update succeeds if its data fits and there is a slot for the log.\<close>

lemma Update_live:
  assumes "pers_reach dev blocks ok cx geo d p S W" "reliable dev blocks ok" and lid: "lid = logfmt_ID cx origin"
    and "directoryWriteToken p + 1 \<noteq> 0"
    and "unmarshalCheckpoint cx (case S lid of None \<Rightarrow> [] | Some a \<Rightarrow> fst a) = Ok cur" "f cur = Ok new"
    and "\<forall>l \<in> set (SlotLengths geo). entryHeaderSize + length (marshalCheckpoint new) \<le> l * BlockSize dev div minEntries"
    and "S lid = None \<Longrightarrow> freeSlots p \<noteq> [] \<and>
      entryHeaderSize + length (dir_bytes cx (AList.update lid (hd (freeSlots p)) (idToSlot p))) \<le>
        SlotLengths geo ! 0 * BlockSize dev div minEntries"
  shows "\<exists>d' p'. Update dev cx d p origin f = (Ok (), d', p')"
proof -
  let ?bs = "BlockSize dev"
  from pers_reach_state [OF assms(1)] obtain regs where okd: "ok d" and R: "pers_inv ?bs (blocks d) p regs"
    "part_shape (part p) = geo_shape geo" "S = log_reg p regs" "free_blank p regs" unfolding pers_state_def by blast
  have idok: "id_ok lid" using logfmt_id_ok lid by simp
  have "\<exists>i d1 p1. logSlot dev cx d p lid True = (Ok i, d1, p1)"
    by (rule logSlot_live [OF okd R(1,2) assms(2) idok assms(8)]) (simp add: R(3) log_reg_def)
  then obtain i d1 p1 where l: "logSlot dev cx d p lid True = (Ok i, d1, p1)" by blast
  define regs' where "regs' = add_regs cx p regs lid"
  from logSlot_rep [OF okd R(1) l idok assms(4), folded regs'_def]
  have L: "ok d1" "pers_inv ?bs (blocks d1) p1 regs'" "map_of (idToSlot p1) = (map_of (idToSlot p))(lid \<mapsto> i)"
    "part_shape (part p1) = part_shape (part p)"
    "freeSlots p = (if map_of (idToSlot p) lid = None then [i] else []) @ freeSlots p1" by blast+
  have mi: "map_of (idToSlot p1) lid = Some i" using L(3) by simp
  have i: "0 < i" using pers_slot [OF L(2) mi] by simp
  have x: "fst (regs' ! i) = (case S lid of None \<Rightarrow> [] | Some a \<Rightarrow> fst a)"
  proof (cases "map_of (idToSlot p) lid")
    case None
    then show ?thesis using R(3,4) L(5) i by (simp add: log_reg_def regs'_def add_regs_def free_blank_def)
  next
    case (Some j)
    then have "j = i" using l by (simp add: logSlot_def)
    then show ?thesis using Some R(3) by (simp add: log_reg_def regs'_def add_regs_def)
  qed
  have shape: "part_shape (part p1) = geo_shape geo" using L(4) R(2) by simp
  show ?thesis
    using Update_mapped [where f = f and cur = cur, OF L(1,2) shape assms(2) lid l mi _ assms(6,7)] x assms(5) by auto
qed

end

end
