(* ===== verification/Mmc.thy ===== *)
theory Mmc
  imports Device
begin

text \<open>
  The eMMC device of \<open>storage/mmc/internal.go\<close>: \<open>WriteBlocks\<close> pads the data to whole blocks and
  hands it to the Trusted OS in transfers of at most \<open>MaxTransferBytes\<close>, \<open>ReadBlocks\<close> fetches it the
  same way. The two system calls are code of the Trusted OS, so they are a parameter of the model
  (\<open>os_rpc\<close>, over the state \<open>'c\<close> of the card); the locale \<open>card_rpc\<close> says what is
  expected of them, and the \<open>sublocale\<close> below shows that the device then meets the contract
  \<open>block_device\<close>, however the data is cut into transfers.
\<close>

section \<open>The device\<close>

record 'c os_rpc =
  rpc_WriteBlocks :: "'c \<Rightarrow> int \<Rightarrow> bytes \<Rightarrow> go_error option \<times> 'c"
  rpc_Read :: "'c \<Rightarrow> int \<Rightarrow> int \<Rightarrow> go_error + bytes"

definition MaxTransferBytes :: nat where
  "MaxTransferBytes = 32 * 1024"

text \<open>The loop of \<open>WriteBlocks\<close>: one system call per transfer, stopping at the first error.\<close>

function mmc_write_loop :: "'c os_rpc \<Rightarrow> nat \<Rightarrow> nat \<Rightarrow> bytes \<Rightarrow> 'c \<Rightarrow> go_error option \<times> 'c" where
  "mmc_write_loop rpc bs lba b c =
     (if b = [] then (None, c)
      else
        let bl = (if MaxTransferBytes < length b then MaxTransferBytes else length b)
        in case rpc_WriteBlocks rpc c (to_int lba) (take bl b) of
             (Some e, c') \<Rightarrow> (Some e, c')
           | (None, c') \<Rightarrow> mmc_write_loop rpc bs (uadd lba (bl div bs)) (drop bl b) c')"
  by pat_completeness auto
termination
  by (relation "measure (\<lambda>(rpc, bs, lba, b, c). length b)") (auto simp: MaxTransferBytes_def)

declare mmc_write_loop.simps [simp del]

definition mmc_WriteBlocks :: "'c os_rpc \<Rightarrow> nat \<Rightarrow> 'c \<Rightarrow> nat \<Rightarrow> bytes \<Rightarrow> nat res \<times> 'c" where
  "mmc_WriteBlocks rpc bs c lba b =
     (if b = [] then (Ok 0, c)
      else if bs = 0 then (Panic DivideByZero, c)
      else
        let b' = pad_block bs b;
            numBlocks = length b' div bs
        in case mmc_write_loop rpc bs lba b' c of
             (Some e, c') \<Rightarrow> (Err e, c')
           | (None, c') \<Rightarrow> (Ok numBlocks, c'))"

text \<open>
  The loop of \<open>ReadBlocks\<close>. \<open>copy(b, readBuf)\<close> may reach past the transfer when the system call
  returns more than it was asked for; the division of the next block address by the block size
  comes after the call.
\<close>

function mmc_read_loop :: "'c os_rpc \<Rightarrow> nat \<Rightarrow> 'c \<Rightarrow> nat \<Rightarrow> bytes \<Rightarrow> bytes res" where
  "mmc_read_loop rpc bs c lba b =
     (if b = [] then Ok []
      else
        let bl = (if MaxTransferBytes < length b then MaxTransferBytes else length b)
        in case rpc_Read rpc c (int lba * int bs) (int bl) of
             Inl e \<Rightarrow> Err e
           | Inr readBuf \<Rightarrow>
               let b' = gocopy b readBuf
               in if bs = 0 then Panic DivideByZero
                  else case mmc_read_loop rpc bs c (uadd lba (bl div bs)) (drop bl b') of
                         Ok rest \<Rightarrow> Ok (take bl b' @ rest)
                       | r \<Rightarrow> r)"
  by pat_completeness auto
termination
  by (relation "measure (\<lambda>(rpc, bs, c, lba, b). length b)") (auto simp: MaxTransferBytes_def)

declare mmc_read_loop.simps [simp del]

definition mmc_ReadBlocks :: "'c os_rpc \<Rightarrow> nat \<Rightarrow> 'c \<Rightarrow> nat \<Rightarrow> bytes \<Rightarrow> bytes res" where
  "mmc_ReadBlocks rpc bs c lba b = (if b = [] then Ok b else mmc_read_loop rpc bs c lba b)"

text \<open>\<open>bs\<close> is \<open>CardInfo.BlockSize\<close>, a field of the device that no method changes.\<close>

definition MmcDevice :: "'c os_rpc \<Rightarrow> nat \<Rightarrow> 'c BlockReaderWriter" where
  "MmcDevice rpc bs = \<lparr>BlockSize = bs, ReadBlocks = mmc_ReadBlocks rpc bs,
     WriteBlocks = mmc_WriteBlocks rpc bs\<rparr>"

lemma MmcDevice_simps [simp]:
  "BlockSize (MmcDevice rpc bs) = bs" "ReadBlocks (MmcDevice rpc bs) = mmc_ReadBlocks rpc bs"
  "WriteBlocks (MmcDevice rpc bs) = mmc_WriteBlocks rpc bs"
  by (simp_all add: MmcDevice_def)


section \<open>What is expected of the Trusted OS\<close>

text \<open>
  A card is a list of blocks. \<open>RPC.WriteBlocks\<close> with whole blocks stores all of them or, when it
  reports an error, fewer than all, in order; \<open>RPC.Read\<close> of whole blocks returns them. The block
  size divides the transfer size (it is 512 on the devices the applet runs on), and block
  addresses are Go \<open>int\<close>s.
\<close>

locale card_rpc =
  fixes rpc :: "'c os_rpc" and bs :: nat
    and cblocks :: "'c \<Rightarrow> bytes list" and cok :: "'c \<Rightarrow> bool"
  assumes card_bs: "0 < bs" "bs dvd MaxTransferBytes"
    and card_size: "cok c \<Longrightarrow> length (cblocks c) \<le> W32 div 2"
    and card_block: "cok c \<Longrightarrow> b \<in> set (cblocks c) \<Longrightarrow> length b = bs"
    and card_write_ok: "cok c \<Longrightarrow> 0 < k \<Longrightarrow> length data = k * bs \<Longrightarrow> lba + k \<le> length (cblocks c) \<Longrightarrow>
      rpc_WriteBlocks rpc c (int lba) data = (None, c') \<Longrightarrow>
      cok c' \<and> cblocks c' = overwrite lba (chunks bs data) (cblocks c)"
    and card_write_err: "cok c \<Longrightarrow> 0 < k \<Longrightarrow> length data = k * bs \<Longrightarrow> lba + k \<le> length (cblocks c) \<Longrightarrow>
      rpc_WriteBlocks rpc c (int lba) data = (Some e, c') \<Longrightarrow>
      cok c' \<and> (\<exists>j < k. cblocks c' = overwrite lba (take j (chunks bs data)) (cblocks c))"
    and card_read: "cok c \<Longrightarrow> lba + k \<le> length (cblocks c) \<Longrightarrow>
      rpc_Read rpc c (int lba * int bs) (int (k * bs)) = Inr (concat (take k (drop lba (cblocks c))))"
begin

text \<open>A transfer holds whole blocks: the data is cut at a block boundary.\<close>

lemma transfer_blocks:
  assumes "length b = k * bs" and "b \<noteq> []"
  obtains j where "0 < j" "j \<le> k"
    "(if MaxTransferBytes < length b then MaxTransferBytes else length b) = j * bs"
proof -
  obtain q where q: "MaxTransferBytes = q * bs" using card_bs(2) by (metis dvd_def mult.commute)
  have k: "0 < k" using assms by (cases k) auto
  have "0 < q" using q by (cases q) (auto simp: MaxTransferBytes_def)
  show ?thesis
  proof (cases "MaxTransferBytes < length b")
    case True
    then have "q * bs < k * bs" using q assms(1) by simp
    then have "q < k" by simp
    with \<open>0 < q\<close> True q show ?thesis by (intro that [of q]) auto
  next
    case False
    with k assms(1) show ?thesis by (intro that [of k]) auto
  qed
qed

lemma overwrite_resume:
  assumes "ys' = overwrite w xs ys" "length xs = j" "w + j + length zs \<le> length ys"
  shows "overwrite (w + j) (take i zs) ys' = overwrite w (take (j + i) (xs @ zs)) ys"
  using overwrite_append [of w xs "take i zs" ys] assms by simp

text \<open>One iteration of the write loop: a non-empty prefix of \<open>j\<close> blocks is transferred, then the rest.\<close>

lemma write_step:
  assumes "cok c" "length b = k * bs" "lba + k \<le> length (cblocks c)" "b \<noteq> []"
  obtains j where "0 < j" "j \<le> k" "mmc_write_loop rpc bs lba b c =
    (case rpc_WriteBlocks rpc c (int lba) (take (j * bs) b) of
       (Some e, c1) \<Rightarrow> (Some e, c1) | (None, c1) \<Rightarrow> mmc_write_loop rpc bs (lba + j) (drop (j * bs) b) c1)"
proof -
  obtain j where j: "0 < j" "j \<le> k"
    "(if MaxTransferBytes < length b then MaxTransferBytes else length b) = j * bs"
    using transfer_blocks [OF assms(2,4)] .
  have lba: "lba < W32 div 2" using assms(3) j card_size [OF assms(1)] by simp
  have next_lba: "uadd lba (j * bs div bs) = lba + j"
    using card_bs assms(3) j card_size [OF assms(1)] uadd_small [of lba j] by (simp add: W32_def)
  show ?thesis
    using that [OF j(1,2)] assms(4) lba
    unfolding mmc_write_loop.simps [of rpc bs lba b c] Let_def j(3) next_lba by simp
qed

lemma write_loop:
  assumes "cok c" "length b = k * bs" "lba + k \<le> length (cblocks c)"
    and "mmc_write_loop rpc bs lba b c = (r, c')"
  shows "cok c' \<and> (case r of
      None \<Rightarrow> cblocks c' = overwrite lba (chunks bs b) (cblocks c)
    | Some e \<Rightarrow> \<exists>j < k. cblocks c' = overwrite lba (take j (chunks bs b)) (cblocks c))"
  using assms
proof (induction "length b" arbitrary: b c lba k rule: less_induct)
  case less
  show ?case
  proof (cases "b = []")
    case True
    with less.prems show ?thesis by (simp add: mmc_write_loop.simps)
  next
    case False
    from write_step [OF less.prems(1-3) False] obtain j where j: "0 < j" "j \<le> k"
      and step: "mmc_write_loop rpc bs lba b c = (case rpc_WriteBlocks rpc c (int lba) (take (j * bs) b) of
        (Some e, c1) \<Rightarrow> (Some e, c1) | (None, c1) \<Rightarrow> mmc_write_loop rpc bs (lba + j) (drop (j * bs) b) c1)" .
    let ?hd = "take (j * bs) b" and ?tl = "drop (j * bs) b"
    have lh: "length ?hd = j * bs" and lt: "length ?tl = (k - j) * bs"
      using j less.prems(2) by (auto simp: algebra_simps)
    have ch: "chunks bs b = chunks bs ?hd @ chunks bs ?tl"
      using chunks_append [OF card_bs(1) lh, of ?tl] by simp
    have lch: "length (chunks bs ?hd) = j" using length_chunks_dvd [OF card_bs(1) lh] .
    obtain r1 c1 where w: "rpc_WriteBlocks rpc c (int lba) ?hd = (r1, c1)" by fastforce
    have fits: "lba + j \<le> length (cblocks c)" using j less.prems(3) by simp
    show ?thesis
    proof (cases r1)
      case (Some e)
      from card_write_err [OF less.prems(1) j(1) lh fits] w Some obtain i
        where i: "cok c1" "i < j" "cblocks c1 = overwrite lba (take i (chunks bs ?hd)) (cblocks c)"
        by blast
      have "take i (chunks bs b) = take i (chunks bs ?hd)" using i(2) ch lch by simp
      moreover have "r = Some e" "c' = c1" using less.prems(4) step w Some by auto
      moreover have "i < k" using i(2) j(2) by simp
      ultimately show ?thesis using i by auto
    next
      case None
      from card_write_ok [OF less.prems(1) j(1) lh fits] w None
      have c1: "cok c1" "cblocks c1 = overwrite lba (chunks bs ?hd) (cblocks c)" by auto
      have fits': "lba + j + (k - j) \<le> length (cblocks c1)"
        using c1(2) fits lch less.prems(3) j(2) by simp
      have "0 < j * bs" "j * bs \<le> length b" using j less.prems(2) card_bs by auto
      then have "length ?tl < length b" unfolding length_drop by linarith
      with less.hyps [OF _ c1(1) lt fits'] less.prems(4) step w None
      have "cok c' \<and> (case r of None \<Rightarrow> cblocks c' = overwrite (lba + j) (chunks bs ?tl) (cblocks c1)
        | Some e \<Rightarrow> \<exists>i < k - j. cblocks c' = overwrite (lba + j) (take i (chunks bs ?tl)) (cblocks c1))" by simp
      note IH = this
      have res: "overwrite (lba + j) (take i (chunks bs ?tl)) (cblocks c1) =
          overwrite lba (take (j + i) (chunks bs b)) (cblocks c)" for i
        unfolding ch using less.prems(3) j(2) length_chunks_dvd [OF card_bs(1) lt]
        by (intro overwrite_resume [OF c1(2) lch]) simp
      show ?thesis
      proof (cases r)
        case None
        with IH show ?thesis using res [of "length (chunks bs ?tl)"] ch lch by simp
      next
        case (Some e)
        with IH obtain i where "cok c'" "i < k - j" "cblocks c' = overwrite lba (take (j + i) (chunks bs b)) (cblocks c)"
          unfolding res by auto
        then show ?thesis using Some by (auto intro!: exI [of _ "j + i"])
      qed
    qed
  qed
qed

text \<open>Reading whole blocks gives them, however many transfers it takes.\<close>

lemma read_loop:
  assumes "cok c" "length b = k * bs" "lba + k \<le> length (cblocks c)"
  shows "mmc_read_loop rpc bs c lba b = Ok (concat (take k (drop lba (cblocks c))))"
  using assms
proof (induction "length b" arbitrary: b lba k rule: less_induct)
  case less
  show ?case
  proof (cases "b = []")
    case True
    with less.prems(2) card_bs have "k = 0" by simp
    with True show ?thesis by (simp add: mmc_read_loop.simps)
  next
    case False
    obtain j where j: "0 < j" "j \<le> k"
      "(if MaxTransferBytes < length b then MaxTransferBytes else length b) = j * bs"
      using transfer_blocks [OF less.prems(2) False] .
    let ?hd = "concat (take j (drop lba (cblocks c)))"
    let ?b = "gocopy b ?hd"
    have blk: "\<forall>x \<in> set (take j (drop lba (cblocks c))). length x = bs"
      using card_block [OF less.prems(1)] by (meson in_set_dropD in_set_takeD)
    have lh: "length ?hd = j * bs"
      using length_concat_blocks [OF blk] less.prems(3) j(2) by simp
    have jb: "0 < j * bs" "j * bs \<le> length b" using j less.prems(2) card_bs by auto
    have tk: "take (j * bs) ?b = ?hd" using lh jb by (simp add: gocopy_def)
    have next_lba: "uadd lba (j * bs div bs) = lba + j"
      using card_bs less.prems j card_size [OF less.prems(1)] uadd_small [of lba j]
      by (simp add: W32_def)
    have "mmc_read_loop rpc bs c (lba + j) (drop (j * bs) ?b) =
      Ok (concat (take (k - j) (drop (lba + j) (cblocks c))))"
      using less.prems jb j by (intro less.hyps) (auto simp: algebra_simps)
    moreover have "rpc_Read rpc c (int lba * int bs) (int (j * bs)) = Inr ?hd"
      using card_read [OF less.prems(1)] less.prems(3) j(2) by simp
    moreover have "take k (drop lba (cblocks c)) =
      take j (drop lba (cblocks c)) @ take (k - j) (drop (lba + j) (cblocks c))"
      using j(2) by (metis add.commute drop_drop le_add_diff_inverse take_add)
    ultimately show ?thesis
      unfolding mmc_read_loop.simps [of rpc bs c lba b] Let_def j(3) next_lba
      using False tk card_bs by simp
  qed
qed

end

sublocale card_rpc \<subseteq> block_device "MmcDevice rpc bs" cblocks cok
proof
  fix d lba n d' e p and data :: bytes
  assume a: "cok d" "data \<noteq> []"
    "lba + nblocks (BlockSize (MmcDevice rpc bs)) (length data) \<le> length (cblocks d)"
  obtain r c' where w: "mmc_write_loop rpc bs lba (pad_block bs data) d = (r, c')" by fastforce
  have len: "length (pad_block bs data) = nblocks bs (length data) * bs"
    using pad_block_length [OF card_bs(1)] .
  have res: "mmc_WriteBlocks rpc bs d lba data =
      (case r of Some e \<Rightarrow> (Err e, c') | None \<Rightarrow> (Ok (nblocks bs (length data)), c'))"
    using a(2) w card_bs len by (simp add: mmc_WriteBlocks_def split: option.splits)
  note L = write_loop [OF a(1) len _ w] a(3)
  show "WriteBlocks (MmcDevice rpc bs) d lba data \<noteq> (Panic p, d')"
    by (simp add: res split: option.splits)
  { assume "WriteBlocks (MmcDevice rpc bs) d lba data = (Ok n, d')"
    with L res show "n = nblocks (BlockSize (MmcDevice rpc bs)) (length data) \<and> cok d' \<and>
      cblocks d' = overwrite lba (to_blocks (BlockSize (MmcDevice rpc bs)) data) (cblocks d)"
      by (auto simp: to_blocks_def split: option.splits) }
  assume "WriteBlocks (MmcDevice rpc bs) d lba data = (Err e, d')"
  with L res show "cok d' \<and> (\<exists>k < nblocks (BlockSize (MmcDevice rpc bs)) (length data).
      cblocks d' = overwrite lba (take k (to_blocks (BlockSize (MmcDevice rpc bs)) data)) (cblocks d))"
    by (auto simp: to_blocks_def split: option.splits)
next
  fix d lba and b :: bytes
  assume "cok d" "lba < length (cblocks d)" "length b = BlockSize (MmcDevice rpc bs)"
  moreover from this card_bs have "b \<noteq> []" by auto
  ultimately show "ReadBlocks (MmcDevice rpc bs) d lba b = Ok (cblocks d ! lba)"
    using read_loop [of d b 1 lba]
    by (simp add: mmc_ReadBlocks_def take_Suc_conv_app_nth hd_drop_conv_nth take_Suc)
qed (use card_bs card_block in \<open>auto simp: MaxTransferBytes_def W32_def dest!: dvd_imp_le\<close>)


context card_rpc
begin

lemma mmc_device: "block_device (MmcDevice rpc bs) cblocks cok"
  by (rule block_device_axioms)

end


section \<open>A card with injected faults\<close>

text \<open>
  A card that meets \<open>card_rpc\<close>, for evaluating the model: its blocks and a plan of faults. Each write
  takes the next item of the plan: \<open>None\<close> lets it succeed, \<open>Some j\<close> stores at most \<open>j\<close> blocks and
  reports an error. An empty plan lets every write succeed.
\<close>

record card =
  card_data :: "bytes list"
  card_faults :: "nat option list"

definition card_write :: "nat \<Rightarrow> card \<Rightarrow> int \<Rightarrow> bytes \<Rightarrow> go_error option \<times> card" where
  "card_write bs c lba data =
     (let cs = chunks bs data; put = (\<lambda>n fs. c\<lparr>card_data := overwrite (nat lba) (take n cs) (card_data c), card_faults := fs\<rparr>)
      in case card_faults c of
           [] \<Rightarrow> (None, put (length cs) [])
         | None # fs \<Rightarrow> (None, put (length cs) fs)
         | Some j # fs \<Rightarrow> (Some (Errorf ''injected fault'' []), put (min j (length cs - 1)) fs))"

definition card_read :: "nat \<Rightarrow> card \<Rightarrow> int \<Rightarrow> int \<Rightarrow> go_error + bytes" where
  "card_read bs c off n = Inr (take (nat n) (drop (nat off) (concat (card_data c))))"

definition card_os :: "nat \<Rightarrow> card os_rpc" where
  "card_os bs = \<lparr>rpc_WriteBlocks = card_write bs, rpc_Read = card_read bs\<rparr>"

definition card_ok :: "nat \<Rightarrow> card \<Rightarrow> bool" where
  "card_ok bs c \<longleftrightarrow> length (card_data c) \<le> W32 div 2 \<and> list_all (\<lambda>b. length b = bs) (card_data c)"

lemma card_ok_overwrite:
  assumes "card_ok bs c" "0 < bs" "length data = k * bs" "lba + k \<le> length (card_data c)"
  shows "card_ok bs (c\<lparr>card_data := overwrite lba (take n (chunks bs data)) (card_data c), card_faults := fs\<rparr>)"
  using assms chunks_blocks [OF assms(2,3)] length_chunks_dvd [OF assms(2,3)]
  by (auto simp: card_ok_def list_all_iff dest!: set_overwrite dest: in_set_takeD)

lemma card_os_rpc:
  assumes "0 < bs" "bs dvd MaxTransferBytes"
  shows "card_rpc (card_os bs) bs card_data (card_ok bs)"
proof
  fix c :: card and lba k n and data :: bytes and c' e
  assume c: "card_ok bs c"
  then have bl: "\<forall>b \<in> set (card_data c). length b = bs" by (simp add: card_ok_def list_all_iff)
  { assume "lba + k \<le> length (card_data c)"
    have "nat (int lba * int bs) = lba * bs" by (metis nat_int of_nat_mult)
    moreover have "\<forall>b \<in> set (drop lba (card_data c)). length b = bs" using bl by (meson in_set_dropD)
    ultimately show "rpc_Read (card_os bs) c (int lba * int bs) (int (k * bs)) =
        Inr (concat (take k (drop lba (card_data c))))"
      using concat_drop_blocks [OF bl, of lba] concat_take_blocks [of "drop lba (card_data c)" bs k]
      by (simp add: card_os_def card_read_def nat_mult_distrib) }
  assume k: "0 < k" "length data = k * bs" "lba + k \<le> length (card_data c)"
  have len: "length (chunks bs data) = k" using length_chunks_dvd [OF assms(1) k(2)] .
  note good = card_ok_overwrite [OF c assms(1) k(2,3)]
  { assume "rpc_WriteBlocks (card_os bs) c (int lba) data = (None, c')"
    then show "card_ok bs c' \<and> card_data c' = overwrite lba (chunks bs data) (card_data c)"
      using good [where n = k] len by (auto simp: card_os_def card_write_def Let_def split: list.splits option.splits) }
  assume "rpc_WriteBlocks (card_os bs) c (int lba) data = (Some e, c')"
  then obtain j fs where "c' = c\<lparr>card_data := overwrite lba (take (min j (k - 1)) (chunks bs data)) (card_data c), card_faults := fs\<rparr>"
    using len by (auto simp: card_os_def card_write_def Let_def split: list.splits option.splits)
  then show "card_ok bs c' \<and> (\<exists>j < k. card_data c' = overwrite lba (take j (chunks bs data)) (card_data c))"
    using good k(1) by (auto intro!: exI [of _ "min j (k - 1)"])
qed (use assms in \<open>auto simp: card_ok_def list_all_iff\<close>)

interpretation card512: card_rpc "card_os 512" 512 card_data "card_ok 512"
  by (rule card_os_rpc) (simp_all add: MaxTransferBytes_def)

text \<open>A card whose plan has no faults: it is \<open>reliable\<close>.\<close>

definition card_good :: "nat \<Rightarrow> card \<Rightarrow> bool" where
  "card_good bs c \<longleftrightarrow> card_ok bs c \<and> card_faults c = []"

lemma card_write_good: "card_faults c = [] \<Longrightarrow> \<exists>c'. card_write bs c lba data = (None, c') \<and> card_faults c' = []"
  by (simp add: card_write_def Let_def)

lemma card_good_rpc:
  assumes "0 < bs" "bs dvd MaxTransferBytes"
  shows "card_rpc (card_os bs) bs card_data (card_good bs)"
proof
  note L = card_os_rpc [OF assms]
  fix c :: card and lba k and data :: bytes and c' e
  assume c: "card_good bs c"
  then have ok: "card_ok bs c" "card_faults c = []" by (simp_all add: card_good_def)
  { assume "lba + k \<le> length (card_data c)"
    then show "rpc_Read (card_os bs) c (int lba * int bs) (int (k * bs)) =
        Inr (concat (take k (drop lba (card_data c))))" by (rule card_rpc.card_read [OF L ok(1)]) }
  assume k: "0 < k" "length data = k * bs" "lba + k \<le> length (card_data c)"
  { assume w: "rpc_WriteBlocks (card_os bs) c (int lba) data = (None, c')"
    then have "card_faults c' = []" using card_write_good [OF ok(2), of bs "int lba" data] by (simp add: card_os_def)
    then show "card_good bs c' \<and> card_data c' = overwrite lba (chunks bs data) (card_data c)"
      using card_rpc.card_write_ok [OF L ok(1) k w] by (simp add: card_good_def) }
  assume "rpc_WriteBlocks (card_os bs) c (int lba) data = (Some e, c')"
  then show "card_good bs c' \<and> (\<exists>j < k. card_data c' = overwrite lba (take j (chunks bs data)) (card_data c))"
    using card_write_good [OF ok(2), of bs "int lba" data] by (simp add: card_os_def)
qed (use assms in \<open>auto simp: card_good_def card_ok_def list_all_iff\<close>)

interpretation good512: card_rpc "card_os 512" 512 card_data "card_good 512"
  by (rule card_good_rpc) (simp_all add: MaxTransferBytes_def)

text \<open>Without faults left in the plan, a write of the device succeeds.\<close>

lemma card_write_loop_none:
  "card_faults c = [] \<Longrightarrow> \<exists>c'. mmc_write_loop (card_os bs) bs lba b c = (None, c') \<and> card_faults c' = []"
proof (induction "length b" arbitrary: b c lba rule: less_induct)
  case less
  show ?case
  proof (cases "b = []")
    case False
    let ?bl = "if MaxTransferBytes < length b then MaxTransferBytes else length b"
    obtain c1 where c1: "card_write bs c (to_int lba) (take ?bl b) = (None, c1)" "card_faults c1 = []"
      using less.prems by (simp add: card_write_def Let_def)
    have "length (drop ?bl b) < length b" using False by (auto simp: MaxTransferBytes_def)
    from less.hyps [OF this c1(2)] show ?thesis
      using False c1(1) unfolding mmc_write_loop.simps [of _ _ lba b] by (simp add: card_os_def Let_def)
  qed (simp add: mmc_write_loop.simps less.prems)
qed

lemma card_reliable: "0 < bs \<Longrightarrow> reliable (MmcDevice (card_os bs) bs) card_data (card_good bs)"
  unfolding reliable_def card_good_def
proof (intro allI impI)
  fix d lba and data :: bytes
  assume a: "0 < bs" "card_ok bs d \<and> card_faults d = []" "data \<noteq> []"
  then obtain c' where "mmc_write_loop (card_os bs) bs lba (pad_block bs data) d = (None, c')"
    using card_write_loop_none by blast
  with a show "\<exists>n d'. WriteBlocks (MmcDevice (card_os bs) bs) d lba data = (Ok n, d')"
    by (simp add: mmc_WriteBlocks_def)
qed

end
