(* ===== verification/Demo.thy ===== *)
theory Demo
  imports PersistenceSpec Mmc
begin

text \<open>
  A concrete run of the storage stack for the witnesses: a card of twelve blocks of 64 bytes without
  faults, a partition of two slots on it, and one checkpoint stored for the log \<open>a\<close>.
\<close>

definition demo_card :: card where
  "demo_card = \<lparr>card_data = replicate 12 (replicate 64 0), card_faults = []\<rparr>"

definition demo_geo :: Geometry where
  "demo_geo = \<lparr>Start = 0, Length = 12, SlotLengths = [6, 6]\<rparr>"

abbreviation demo_dev :: "card BlockReaderWriter" where
  "demo_dev \<equiv> MmcDevice (card_os 64) 64"

definition demo_cp :: bytes where
  "demo_cp = [104, 105]"

lemma latest_marshal [simp]: "latest_of cx (Some (marshalCheckpoint b, rv)) = Ok b"
proof -
  have "marshalCheckpoint b \<noteq> []" by (simp add: marshalCheckpoint_def rawRecordMagic_def)
  then show ?thesis by (simp add: latest_of_def)
qed

lemma demo_rpc: "card_rpc (card_os 64) 64 card_data (card_good 64)"
  by (rule card_good_rpc) (simp_all add: MaxTransferBytes_def)

interpretation demo: persistence demo_dev card_data "card_good 64" line_codec
  by (intro persistence.intro card_rpc.mmc_device demo_rpc lines.directory_codec_axioms)

interpretation mem: persistence MemDev Storage memdev_ok line_codec
  by (intro persistence.intro md.block_device_axioms lines.directory_codec_axioms)

lemma demo_card_ok: "card_good 64 demo_card" "card_data demo_card = replicate 12 (replicate 64 0)"
  by (simp_all add: card_good_def card_ok_def demo_card_def W32_def list_all_iff)

lemma demo_geo_ok: "geo_ok (BlockSize demo_dev) (length (card_data demo_card)) demo_geo"
  by (simp add: demo_card_ok geo_ok_def demo_geo_def entryHeaderSize_def W32_def)

lemma demo_blank: "\<forall>b \<in> set (jregion (card_data demo_card) s n). no_magic b"
proof
  fix b assume "b \<in> set (jregion (card_data demo_card) s n)"
  then have "b \<in> set (card_data demo_card)" by (auto simp: jregion_def dest!: in_set_takeD in_set_dropD)
  then show "no_magic b" by (intro zero_no_magic) (auto simp: demo_card_ok)
qed

lemma demo_part: "\<exists>pt. OpenPartition demo_geo = Ok pt"
  using OpenPartition_layout [OF demo_geo_ok] by blast

lemma demo_free: "distinct fs \<Longrightarrow> set fs = {1 ..< 2} \<Longrightarrow> fs = [1 :: nat]"
proof -
  assume fs: "distinct fs" "set fs = {1 ..< 2}"
  have "length fs = 1" using distinct_card [OF fs(1)] by (simp add: fs(2))
  then obtain x where x: "fs = [x]" by (auto simp: length_Suc_conv)
  then have "x \<in> {1 ..< 2}" using fs(2) by (metis list.set_intros(1))
  then show ?thesis using x by simp
qed

lemma demo_init: "\<exists>p. pers_reach demo_dev card_data (card_good 64) line_codec demo_geo demo_card p Map.empty {} \<and>
  directoryWriteToken p = 0 \<and> freeSlots p = [1] \<and> idToSlot p = []"
proof -
  obtain pt where pt: "OpenPartition demo_geo = Ok pt" using demo_part by blast
  have n: "SlotLengths demo_geo \<noteq> []" "length (SlotLengths demo_geo) < W32" "length (SlotLengths demo_geo) = 2"
    by (simp_all add: demo_geo_def W32_def)
  from demo.fresh_Init [OF demo_card_ok(1) demo_geo_ok n(1,2) demo_blank pt, unfolded n(3)] obtain p where
    "pers_reach demo_dev card_data (card_good 64) line_codec demo_geo demo_card p Map.empty {}"
    "distinct (freeSlots p)" "set (freeSlots p) = {1 ..< 2}" "directoryWriteToken p = 0" "idToSlot p = []" by (elim exE conjE)
  then show ?thesis using demo_free [of "freeSlots p"] by (intro exI [of _ p]) simp
qed

lemma demo_id: "logfmt_ID line_codec ''a'' = ''61''"
  by (simp add: line_codec_def hex_digit_def)

text \<open>The update of the run: it succeeds, and its log then has the checkpoint.\<close>

lemma demo_update:
  "\<exists>d0 p0 d p. pers_reach demo_dev card_data (card_good 64) line_codec demo_geo d0 p0 Map.empty {} \<and>
    directoryWriteToken p0 = 0 \<and> freeSlots p0 = [1] \<and> idToSlot p0 = [] \<and>
    Update demo_dev line_codec d0 p0 ''a'' (\<lambda>_. Ok demo_cp) = (Ok (), d, p)"
proof -
  obtain p0 where p0: "pers_reach demo_dev card_data (card_good 64) line_codec demo_geo demo_card p0 Map.empty {}"
    "directoryWriteToken p0 = 0" "freeSlots p0 = [1]" "idToSlot p0 = []" using demo_init by blast
  have "\<exists>d p. Update demo_dev line_codec demo_card p0 ''a'' (\<lambda>_. Ok demo_cp) = (Ok (), d, p)"
  proof (rule demo.Update_live [OF p0(1), where cur = "[]" and new = demo_cp])
    show "reliable demo_dev card_data (card_good 64)" by (rule card_reliable) simp
    show "unmarshalCheckpoint line_codec (case Map.empty (logfmt_ID line_codec ''a'') of None \<Rightarrow> [] | Some a \<Rightarrow> fst a) = Ok []"
      by (simp add: unmarshalCheckpoint_def rawRecordMagic_def lines.checkpoint_empty)
    show "\<forall>l \<in> set (SlotLengths demo_geo). entryHeaderSize + length (marshalCheckpoint demo_cp) \<le> l * BlockSize demo_dev div minEntries"
      by (simp add: demo_geo_def entryHeaderSize_def marshalCheckpoint_def rawRecordMagic_def demo_cp_def minEntries_def)
    show "freeSlots p0 \<noteq> [] \<and> entryHeaderSize + length (dir_bytes line_codec
        (AList.update (logfmt_ID line_codec ''a'') (hd (freeSlots p0)) (idToSlot p0))) \<le>
        SlotLengths demo_geo ! 0 * BlockSize demo_dev div minEntries"
      by (simp add: p0 demo_id dir_bytes_def line_codec_def demo_geo_def entryHeaderSize_def minEntries_def)
  qed (simp_all add: p0)
  then show ?thesis using p0 by blast
qed

lemma demo_safe: "safe_data 64 (marshalCheckpoint demo_cp)"
  by (simp add: safe_data_def entryHeaderSize_def marshalCheckpoint_def rawRecordMagic_def demo_cp_def chunks.simps no_magic_def)

lemma demo_stored:
  "\<exists>d p rv W. pers_reach demo_dev card_data (card_good 64) line_codec demo_geo d p
    [''61'' \<mapsto> (marshalCheckpoint demo_cp, rv)] W"
proof -
  obtain d0 p0 d p where h: "pers_reach demo_dev card_data (card_good 64) line_codec demo_geo d0 p0 Map.empty {}"
    "directoryWriteToken p0 = 0" "Update demo_dev line_codec d0 p0 ''a'' (\<lambda>_. Ok demo_cp) = (Ok (), d, p)"
    using demo_update by blast
  show ?thesis
    using demo.Update_reach [OF h(1,3), of "''61''"] h(2) demo_safe demo_id by auto
qed

text \<open>The same update, stopped between its read and its write.\<close>

lemma demo_pending:
  "\<exists>d p w d' p'. pers_reach demo_dev card_data (card_good 64) line_codec demo_geo d p [''61'' \<mapsto> ([], 0)] {(''61'', w, [])} \<and>
    Update_commit demo_dev d p w = (Ok (), d', p') \<and> snd (snd w) = marshalCheckpoint demo_cp"
proof -
  obtain d0 p0 d' p' where h: "pers_reach demo_dev card_data (card_good 64) line_codec demo_geo d0 p0 Map.empty {}"
    "directoryWriteToken p0 = 0" "Update demo_dev line_codec d0 p0 ''a'' (\<lambda>_. Ok demo_cp) = (Ok (), d', p')"
    using demo_update by blast
  obtain w d p where w: "Update_prepare demo_dev line_codec d0 p0 ''a'' (\<lambda>_. Ok demo_cp) = (Ok w, d, p)"
    "Update_commit demo_dev d p w = (Ok (), d', p')" "snd (snd w) = marshalCheckpoint demo_cp"
    using h(3) by (auto simp: Update_def Update_prepare_def Let_def split: prod.splits res.splits)
  have "pers_reach demo_dev card_data (card_good 64) line_codec demo_geo d p [''61'' \<mapsto> ([], 0)] {(''61'', w, [])}"
    using pers_reach.k_prepare [OF h(1) w(1), of "''61''"] h(2) by (simp add: demo_id)
  then show ?thesis using w by blast
qed

end
