(* ===== verification/StorageLimits.thy ===== *)
theory StorageLimits
  imports Demo
begin

text \<open>
  What the storage stack does not give: blocks that make \<open>OpenJournal\<close> panic, writes that are reported as
  successful and are not, errors that \<open>Erase\<close> and \<open>Open\<close> drop, sums that wrap around in
  \<open>Validate\<close>, and a checkpoint that is lost with its directory entry.
\<close>

section \<open>A record with a length that is no \<open>int\<close>\<close>

context block_device
begin

lemma open_huge:
  assumes "ok d" "journal_geom (BlockSize dev) (length (blocks d)) start len" "0 < len"
    and "concat (jregion (blocks d) start len) = magic0 @ be_put 4 rv @ be_put 8 n @ sha @ rest"
    and "rv \<noteq> (0 :: 32 word)" "W32 div 2 \<le> unat (n :: 64 word)" "length sha = 32"
  shows "OpenJournal dev d start len = Panic MakeLenOutOfRange"
proof -
  define E where "E = start + len"
  let ?bs = "BlockSize dev" and ?src = "concat (take E (blocks d))"
  have g: "E \<le> length (blocks d)" "E * ?bs \<le> W32" using assms(2) by (simp_all add: journal_geom_def E_def)
  have rd: "byte_reader (br_ReadFull dev d) (br_at dev (blocks d) E) ?src" using br_reader [OF assms(1) g] .
  have at: "br_at dev (blocks d) E (newBlockReader dev start) (start * ?bs)"
    using assms(3) by (intro newBlockReader_at g(2)) (simp add: E_def)
  have src: "drop (start * ?bs) ?src = magic0 @ be_put 4 rv @ be_put 8 n @ sha @ rest"
    using region_src [OF assms(1), of start 0 len] assms(4) by (simp add: E_def)
  have "length (drop (start * ?bs) ?src) = 48 + length rest" by (simp add: src assms(7))
  then have "start * ?bs + 48 \<le> length ?src" by simp
  from byte_reader.unmarshal_header [OF rd at this src assms(7,5)] assms(6) obtain r where
    "unmarshalEntry (br_ReadFull dev d) (newBlockReader dev start) = (Panic MakeLenOutOfRange, r)" by auto
  moreover have "start < uadd start len" using geom_small [OF assms(2)] assms(3) by simp
  ultimately show ?thesis
    by (simp add: OpenJournal_def journal_init_def journal_scan.simps [of _ _ _ _ start])
qed

end

text \<open>
  C36. A block that starts like a record but claims a data length of \<open>2 ^ 31\<close> or more makes
  \<open>OpenJournal\<close> panic: the length comes from the device and \<open>make\<close> does not accept it.
\<close>

theorem open_panics_on_length:
  assumes "card_rpc rpc bs cblocks cok" "cok d" "journal_geom bs (length (cblocks d)) start len" "0 < len"
    and "concat (jregion (cblocks d) start len) = magic0 @ be_put 4 rv @ be_put 8 n @ sha @ rest"
    and "rv \<noteq> (0 :: 32 word)" "W32 div 2 \<le> unat (n :: 64 word)" "length sha = 32"
  shows "OpenJournal (MmcDevice rpc bs) d start len = Panic MakeLenOutOfRange"
  using block_device.open_huge [OF card_rpc.mmc_device [OF assms(1)] assms(2), of start len rv n sha rest] assms(3-8)
  by simp

definition huge_card :: card where
  "huge_card = \<lparr>card_data = [magic0 @ be_put 4 (1 :: 32 word) @ be_put 8 (0x80000000 :: 64 word) @ replicate 48 0],
     card_faults = []\<rparr>"

theorem open_panics_on_length_witness:
  "OpenJournal demo_dev huge_card 0 1 = Panic MakeLenOutOfRange"
proof (rule open_panics_on_length [OF demo_rpc])
  show "card_good 64 huge_card"
    by (simp add: card_good_def card_ok_def huge_card_def W32_def)
  show "concat (jregion (card_data huge_card) 0 1) =
      magic0 @ be_put 4 (1 :: 32 word) @ be_put 8 (0x80000000 :: 64 word) @ replicate 32 0 @ replicate 16 0"
    by (simp add: jregion_def huge_card_def flip: replicate_add)
qed (simp_all add: huge_card_def journal_geom_def entryHeaderSize_def W32_def)


section \<open>Success that is not checked\<close>

lemma br_ReadFull_cong:
  assumes "ReadBlocks dev d = ReadBlocks dev d'"
  shows "br_ReadFull dev d br n = br_ReadFull dev d' br n"
proof (induction n arbitrary: br rule: less_induct)
  case (less n)
  have rd: "br_Read dev d br n = br_Read dev d' br n" unfolding br_Read_def assms ..
  have IH: "br_ReadFull dev d br' (n - length b) = br_ReadFull dev d' br' (n - length b)" if "n \<noteq> 0" "b \<noteq> []" for br' b
    using that by (intro less.IH) simp
  obtain q br' where q: "br_Read dev d' br n = (q, br')" by fastforce
  show ?case
    unfolding br_ReadFull.simps [of dev d br n] br_ReadFull.simps [of dev d' br n] rd q
    by (cases q) (auto simp: IH)
qed

lemma journal_scan_cong:
  "br_ReadFull dev d = br_ReadFull dev d' \<Longrightarrow> journal_scan dev d start len lba e n = journal_scan dev d' start len lba e n"
proof (induction dev d start len lba e n rule: journal_scan.induct)
  case (1 dev d start len lba e n)
  show ?case
    unfolding journal_scan.simps [of dev d start len lba e n] journal_scan.simps [of dev d' start len lba e n]
    using 1 by (auto simp: Let_def split: prod.split res.split)
qed

lemma OpenJournal_cong:
  assumes "ReadBlocks dev d = ReadBlocks dev d'"
  shows "OpenJournal dev d start len = OpenJournal dev d' start len"
proof -
  have "br_ReadFull dev d = br_ReadFull dev d'" using br_ReadFull_cong [OF assms] by (intro ext)
  then show ?thesis by (simp add: OpenJournal_def journal_init_def journal_scan_cong [of dev d d'])
qed

text \<open>A device that loses what it is given: after every write its hook clears the block.\<close>

definition lossy_dev :: memdev where
  "lossy_dev = (NewMemDev 3)\<lparr>OnBlockWritten := Some (\<lambda>lba st. st[lba := replicate MemBlockSize 0])\<rparr>"

lemma journal_inv_fresh:
  assumes "journal_inv bs bl start len j" "current j = zero_entry"
  shows "j_start j = start" "j_length j = len" "nextBlock j = start"
    "maxDataBytes j = usub (umul len bs div minEntries) entryHeaderSize"
proof -
  from assms obtain es p w where h: "region_inv bs (max_blocks bs len) (jregion bl start len) es p"
    "zero_entry = last_entry es" "nextBlock j = start + w" "next_ok bs (max_blocks bs len) es p w"
    unfolding journal_inv_def by metis
  have "es = []"
  proof (rule ccontr)
    assume "es \<noteq> []"
    with region_inv_last(1) [OF h(1)] h(2) have "Revision (last es) \<noteq> 0" "last es = zero_entry"
      by (simp_all add: last_entry_def safe_entry_def wf_entry_def)
    then show False by (simp add: zero_entry_def)
  qed
  with h show "nextBlock j = start" by (simp add: next_ok_def)
qed (use assms in \<open>simp_all add: journal_inv_def\<close>)

lemma lossy_write:
  assumes "0 < length b" "length b \<le> MemBlockSize"
  shows "memdev_WriteBlocks lossy_dev 0 b = (Ok 1, lossy_dev)"
proof -
  have n: "nblocks MemBlockSize (length b) = 1"
    using nblocks_le_iff [of MemBlockSize "length b" 1] nblocks_pos [of MemBlockSize "length b"] assms by simp
  then have "length (pad_block MemBlockSize b) div MemBlockSize = 1" by (simp add: pad_block_length)
  then show ?thesis
    by (simp add: memdev_WriteBlocks_def lossy_dev_def NewMemDev_def uadd_def W32_def numeral_3_eq_3)
qed

text \<open>
  C37. \<open>Update\<close> does not look at what the device stored: on a device that drops every block but reports
  success, it returns no error and the journal in memory has the new data, while opening the
  journal again finds none.
\<close>

theorem update_does_not_verify:
  "\<exists>j d' j' j''. OpenJournal MemDev lossy_dev 0 3 = Ok j \<and> journal_Update MemDev lossy_dev j [42] = (Ok (), d', j') \<and>
    journal_Data j' = ([42], 1) \<and> OpenJournal MemDev d' 0 3 = Ok j'' \<and> journal_Data j'' = ([], 0)"
proof -
  have rd: "ReadBlocks MemDev lossy_dev = ReadBlocks MemDev (NewMemDev 3)"
    by (intro ext) (simp add: memdev_ReadBlocks_def lossy_dev_def Let_def)
  have g: "journal_geom (BlockSize MemDev) (length (Storage (NewMemDev 3))) 0 3"
    by (simp add: journal_geom_def NewMemDev_def MemBlockSize_def entryHeaderSize_def W32_def)
  have blank: "\<forall>b \<in> set (jregion (Storage (NewMemDev 3)) 0 3). no_magic b"
    by (auto simp: jregion_def NewMemDev_def intro!: zero_no_magic)
  have okd: "memdev_ok (NewMemDev 3)" by (rule NewMemDev_ok) (simp add: W32_def)
  from md.open_empty [OF okd g blank] obtain j where
    j: "OpenJournal MemDev (NewMemDev 3) 0 3 = Ok j" "current j = zero_entry"
      "journal_inv (BlockSize MemDev) (Storage (NewMemDev 3)) 0 3 j" by blast
  note J = journal_inv_fresh [OF j(3,2)]
  have o: "OpenJournal MemDev lossy_dev 0 3 = Ok j" using OpenJournal_cong [OF rd] j(1) by simp
  have wr: "memdev_WriteBlocks lossy_dev 0 (entry_bytes (new_entry 1 [42])) = (Ok 1, lossy_dev)"
    by (rule lossy_write) (simp_all add: entry_bytes_new entry_Size_def entryHeaderSize_def MemBlockSize_def)
  have mx: "to_int (maxDataBytes j) = 464"
    by (simp add: J(4) minEntries_def entryHeaderSize_def MemBlockSize_def W32_def umul_def usub_def to_int_def)
  have "journal_Update MemDev lossy_dev j [42] =
      (Ok (), lossy_dev, j\<lparr>nextBlock := uadd 0 1, current := new_entry 1 [42]\<rparr>)"
    using wr mx by (simp add: journal_Update_def J j(2) zero_entry_def entry_Size_def entryHeaderSize_def MemBlockSize_def
      W32_def umul_def usub_def uadd_def Let_def)
  then show ?thesis using o j(2) by (auto simp: journal_Data_def zero_entry_def)
qed


section \<open>Errors that are dropped\<close>

context block_device
begin

lemma open_duplicate:
  assumes "ok d" "journal_geom (BlockSize dev) (length (blocks d)) start len" "wf_entry e" "wf_entry e'"
    and "Revision e' = Revision e"
    and "jregion (blocks d) start len = eblocks (BlockSize dev) e @ eblocks (BlockSize dev) e' @ rest"
  shows "\<exists>err. OpenJournal dev d start len = Err err"
proof -
  define k where "k = length (eblocks (BlockSize dev) e)"
  have k: "0 < k" "0 < length (eblocks (BlockSize dev) e')" using eblocks_pos [OF bs_pos] assms(3,4) by (simp_all add: k_def)
  moreover have "len = k + length (eblocks (BlockSize dev) e') + length rest"
    using length_jregion [OF assms(2)] assms(6) by (simp add: k_def)
  ultimately have kl: "k < len" by linarith
  have dr: "drop k (jregion (blocks d) start len) = eblocks (BlockSize dev) e' @ rest" by (simp add: assms(6) k_def)
  have pos: "Revision zero_entry < Revision e"
    using assms(3) by (simp add: wf_entry_def zero_entry_def word_neq_0_conv)
  have first: "journal_scan dev d start len start zero_entry start =
      journal_scan dev d start len (start + k) e (start + k)"
    using scan_ent(1) [OF assms(1,2) _ assms(3), of 0 "eblocks (BlockSize dev) e' @ rest" "start + k" zero_entry start]
      pos kl k(1) assms(6) by (simp add: k_def)
  obtain br where u: "unmarshalEntry (br_ReadFull dev d) (newBlockReader dev (start + k)) = (Ok e', br)"
    using unmarshal_region(2) [OF assms(1,2) kl assms(4) dr] by blast
  have "start + k < uadd start len" using kl geom_small [OF assms(2)] by simp
  then have "\<exists>err. journal_scan dev d start len (start + k) e (start + k) = Err err"
    unfolding journal_scan.simps [of dev d start len "start + k"] using u assms(5) by simp
  with first show ?thesis by (auto simp: OpenJournal_def journal_init_def)
qed

end

text \<open>
  C35. \<open>Partition.Open\<close> loses the error of the journal: when a slot has two records of the same revision,
  which \<open>OpenJournal\<close> reports as corruption, \<open>Open\<close> still returns the slot, and reading it panics
  on the journal that is not there.
\<close>

theorem open_hides_error:
  assumes "card_rpc rpc bs cblocks cok" "cok d" "i < length (p_slots p)" "s_journal (p_slots p ! i) = None"
    and "journal_geom bs (length (cblocks d)) (s_start (p_slots p ! i)) (s_length (p_slots p ! i))"
    and "jregion (cblocks d) (s_start (p_slots p ! i)) (s_length (p_slots p ! i)) = eblocks bs e @ eblocks bs e' @ rest"
    and "wf_entry e" "wf_entry e'" "Revision e' = Revision e"
  shows "\<exists>p'. Partition_Open (MmcDevice rpc bs) d p i = (Ok i, p') \<and> Slot_Read (p_slots p' ! i) = Panic NilDeref"
proof -
  from block_device.open_duplicate [OF card_rpc.mmc_device [OF assms(1)] assms(2), of _ _ e e' rest] assms(5-9)
  obtain err where "OpenJournal (MmcDevice rpc bs) d (s_start (p_slots p ! i)) (s_length (p_slots p ! i)) = Err err" by auto
  then show ?thesis using assms(3,4) by (simp add: Partition_Open_def Slot_Open_def Slot_Read_def)
qed

definition dup_card :: card where
  "dup_card = \<lparr>card_data = eblocks 64 (new_entry 1 [42]) @ eblocks 64 (new_entry 1 [43]), card_faults = []\<rparr>"

lemma dup_entry_blocks: "length (eblocks 64 (new_entry 1 [x])) = 1"
  by (simp add: eblocks_def entry_bytes_new entry_Size_def entryHeaderSize_def nblocks_def length_to_blocks)

theorem open_hides_error_witness:
  "\<exists>pt p'. OpenPartition \<lparr>Start = 0, Length = 2, SlotLengths = [2]\<rparr> = Ok pt \<and>
    Partition_Open demo_dev dup_card pt 0 = (Ok 0, p') \<and> Slot_Read (p_slots p' ! 0) = Panic NilDeref"
proof -
  define pt where "pt = \<lparr>p_slots = [\<lparr>s_start = 0, s_length = 2, s_journal = None\<rparr>]\<rparr>"
  have o: "OpenPartition \<lparr>Start = 0, Length = 2, SlotLengths = [2]\<rparr> = Ok pt"
    by (simp add: OpenPartition_def Geometry_Validate_def pt_def uadd_def W32_def)
  have wf: "wf_entry (new_entry 1 [x])" for x by (simp add: wf_entry_def new_entry_def W32_def)
  have len: "length (card_data dup_card) = 2" by (simp add: dup_card_def dup_entry_blocks)
  have "\<exists>p'. Partition_Open demo_dev dup_card pt 0 = (Ok 0, p') \<and> Slot_Read (p_slots p' ! 0) = Panic NilDeref"
  proof (rule open_hides_error [OF demo_rpc])
    show "card_good 64 dup_card"
      using len by (auto simp: card_good_def card_ok_def dup_card_def W32_def list_all_iff intro: eblocks_block)
    show "jregion (card_data dup_card) (s_start (p_slots pt ! 0)) (s_length (p_slots pt ! 0)) =
        eblocks 64 (new_entry 1 [42]) @ eblocks 64 (new_entry 1 [43]) @ []"
      using len by (simp add: jregion_def pt_def dup_card_def)
    show "Revision (new_entry 1 [43]) = Revision (new_entry 1 [42])" by (simp add: new_entry_def)
  qed (simp_all add: pt_def wf len journal_geom_def entryHeaderSize_def W32_def)
  with o show ?thesis by blast
qed

lemma erase_loop_no_error: "fst (erase_loop dev d p i n) \<noteq> Err e"
  by (induction n arbitrary: d p i) (auto split: prod.split res.split)

text \<open>
  \<open>Erase\<close> never reports a failure: whatever the writes to the device return, its result is no error.
\<close>

lemma erase_reports_nothing: "fst (Partition_Erase dev d p) \<noteq> Err e"
  by (simp add: Partition_Erase_def erase_loop_no_error)


section \<open>A checkpoint that is lost with its directory entry\<close>

text \<open>The first write of this card fails before it writes a block.\<close>

definition faulty_card :: card where
  "faulty_card = demo_card\<lparr>card_faults := [Some 0]\<rparr>"

interpretation faulty: persistence demo_dev card_data "card_ok 64" line_codec
  by (intro persistence.intro card_rpc.mmc_device card_os_rpc lines.directory_codec_axioms) (simp_all add: MaxTransferBytes_def)

lemma faulty_write:
  assumes "data \<noteq> []"
  shows "\<exists>e. WriteBlocks demo_dev faulty_card lba data = (Err e, demo_card)"
proof -
  have "pad_block 64 data \<noteq> []" using assms pad_block_prefix [of 64 data] by auto
  then have "\<exists>e. mmc_write_loop (card_os 64) 64 lba (pad_block 64 data) faulty_card = (Some e, demo_card)"
    by (subst mmc_write_loop.simps) (simp add: card_os_def card_write_def faulty_card_def demo_card_def Let_def)
  then show ?thesis using assms by (auto simp: MmcDevice_def mmc_WriteBlocks_def Let_def)
qed

lemma faulty_ok: "card_ok 64 faulty_card" "card_data faulty_card = card_data demo_card"
  using demo_card_ok(1) by (simp_all add: faulty_card_def card_ok_def card_good_def)

text \<open>Writing to an open slot of that card fails, and everything is as before but for the fault.\<close>

lemma faulty_slot_write:
  assumes "part_rep 64 (card_data faulty_card) (part p) regs" "i < length regs" "Slot_Read (p_slots (part p) ! i) = Ok (regs ! i)"
    and "s_length (p_slots (part p) ! i) = 6" "length data \<le> 80"
  shows "\<exists>e p'. slot_CheckAndWrite demo_dev faulty_card p i (snd (regs ! i)) data = (Err e, demo_card, p')"
proof -
  have i: "i < length (p_slots (part p))" using assms(1,2) by (auto simp: part_rep_def dest: list_all2_lengthD)
  note R = part_rep_nth [OF assms(1) i]
  let ?s = "p_slots (part p) ! i"
  obtain j where j: "s_journal ?s = Some j" "(Data (current j), Revision (current j)) = regs ! i"
    using assms(3) by (auto simp: Slot_Read_def split: option.splits)
  have rev: "Revision (current j) = snd (regs ! i)" using arg_cong [OF j(2), of snd] by simp
  define e where "e = new_entry (Revision (current j) + 1) data"
  have inv: "journal_inv (BlockSize demo_dev) (card_data faulty_card) (s_start ?s) (s_length ?s) j"
    using R(1) j(1) by (simp add: slot_rep_def)
  have g: "journal_geom (BlockSize demo_dev) (length (card_data faulty_card)) (s_start ?s) (s_length ?s)" using R(3) by simp
  have "to_int (maxDataBytes j) = 80"
    using inv assms(4) by (simp add: journal_inv_def umul_def usub_def to_int_def minEntries_def entryHeaderSize_def W32_def)
  then have acc: "\<not> to_int (maxDataBytes j) < int (length data)" using assms(5) by simp
  from faulty.update_shape [OF g inv acc e_def refl] obtain w where
    u: "journal_Update demo_dev faulty_card j data =
      (case WriteBlocks demo_dev faulty_card (s_start ?s + w) (entry_bytes e) of
         (Err err, d') \<Rightarrow> (Err (Errorf ''failed to write blocks: %v'' [err]), d', j\<lparr>nextBlock := s_start ?s + w\<rparr>)
       | (Panic pn, d') \<Rightarrow> (Panic pn, d', j\<lparr>nextBlock := s_start ?s + w\<rparr>)
       | (Ok n, d') \<Rightarrow> (Ok (), d', j\<lparr>nextBlock := uadd (s_start ?s + w) n, current := e\<rparr>))" by blast
  have "entry_bytes e \<noteq> []" by (simp add: e_def entry_bytes_new)
  from faulty_write [OF this, of "s_start ?s + w"] show ?thesis
    using j(1) rev by (auto simp: u slot_CheckAndWrite_def Slot_CheckAndWrite_def)
qed

text \<open>The initial state on that card.\<close>

lemma faulty_init:
  "\<exists>pt p. OpenPartition demo_geo = Ok pt \<and> Init demo_dev line_codec faulty_card (NewSlotPersistence pt) = (Ok (), p) \<and>
    pers_inv 64 (card_data demo_card) p (replicate 2 ([], 0)) \<and> idToSlot p = [] \<and> freeSlots p = [1] \<and>
    part_shape (part p) = geo_shape demo_geo"
proof -
  obtain pt where pt: "OpenPartition demo_geo = Ok pt" using demo_part by blast
  have geo: "geo_ok (BlockSize demo_dev) (length (card_data faulty_card)) demo_geo" using demo_geo_ok by (simp add: faulty_ok)
  have n: "SlotLengths demo_geo \<noteq> []" "length (SlotLengths demo_geo) < W32" "length (SlotLengths demo_geo) = 2"
    by (simp_all add: demo_geo_def W32_def)
  have blank: "\<forall>b \<in> set (jregion (card_data faulty_card) (Start demo_geo) (Length demo_geo)). no_magic b"
    unfolding faulty_ok(2) by (rule demo_blank)
  from faulty.fresh_Init [OF faulty_ok(1) geo n(1,2) blank pt, unfolded n(3)] obtain p where
    p: "Init demo_dev line_codec faulty_card (NewSlotPersistence pt) = (Ok (), p)"
      "run_state (BlockSize demo_dev) (card_data faulty_card) line_codec demo_geo p (replicate 2 ([], 0)) Map.empty Map.empty {}"
      "distinct (freeSlots p)" "set (freeSlots p) = {1 ..< 2}" "idToSlot p = []" by blast
  with pt demo_free [OF p(3,4)] show ?thesis by (auto simp: run_state_def faulty_ok(2))
qed

lemma demo_lengths:
  assumes "part_shape pt = geo_shape demo_geo" "i < 2"
  shows "i < length (p_slots pt)" "s_length (p_slots pt ! i) = 6"
proof -
  have "map s_length (p_slots pt) = map snd (geo_shape demo_geo)"
    unfolding assms(1) [symmetric] by (simp add: part_shape_def comp_def)
  also have "\<dots> = [6, 6]" by (simp add: geo_shape_def demo_geo_def)
  finally have l: "map s_length (p_slots pt) = [6, 6]" .
  from arg_cong [OF l, of length] assms(2) show n: "i < length (p_slots pt)" by simp
  have "s_length (p_slots pt ! i) = map s_length (p_slots pt) ! i" using n by simp
  also have "\<dots> = 6" unfolding l using assms(2) by (auto simp: less_2_cases_iff)
  finally show "s_length (p_slots pt ! i) = 6" .
qed

text \<open>The first update fails to store the directory and keeps the new entry in memory.\<close>

lemma faulty_update:
  assumes "pers_inv 64 (card_data demo_card) p (replicate 2 ([], 0))" "idToSlot p = []" "freeSlots p = [1]"
    and "part_shape (part p) = geo_shape demo_geo"
  shows "\<exists>e p'. Update demo_dev line_codec faulty_card p ''a'' f = (Err e, demo_card, p') \<and>
    pers_inv 64 (card_data demo_card) p' (replicate 2 ([], 0)) \<and> idToSlot p' = [(''61'', 1)] \<and>
    part_shape (part p') = geo_shape demo_geo"
proof -
  define regs :: "(bytes \<times> 32 word) list" where "regs = replicate 2 ([], 0)"
  have regs: "regs ! i = ([], 0)" if "i < 2" for i using that by (simp add: regs_def)
  define q where "q = p\<lparr>freeSlots := [], idToSlot := [(''61'', 1)]\<rparr>"
  note P = assms(1) [folded regs_def, unfolded pers_inv_def]
  have lr: "length regs = 2" by (simp add: regs_def)
  have q: "part q = part p" "directorySlot q = Some 0" "directoryWriteToken q = snd (regs ! 0)"
    using P by (simp_all add: q_def)
  obtain b where b: "yaml_MarshalMap line_codec [(''61'', 1)] = Ok b" "length b \<le> 16"
    by (simp add: line_codec_def)
  have rd: "Slot_Read (p_slots (part q) ! 0) = Ok (regs ! 0)" using P q(1) by simp
  have rep: "part_rep 64 (card_data faulty_card) (part q) regs" using P q(1) faulty_ok(2) by simp
  have "s_length (p_slots (part q) ! 0) = 6" using demo_lengths [OF assms(4), of 0] q(1) by simp
  from faulty_slot_write [OF rep _ rd this, of b] b(2) lr obtain e p' where
    w: "slot_CheckAndWrite demo_dev faulty_card q 0 (snd (regs ! 0)) b = (Err e, demo_card, p')" by auto
  have "\<exists>e. storeDirectory demo_dev line_codec faulty_card q = (Err e, demo_card, p')"
    using b(1) q w by (simp add: storeDirectory_def) (simp add: q_def)
  then have up: "\<exists>e. Update demo_dev line_codec faulty_card p ''a'' f = (Err e, demo_card, p')"
    using assms(2,3) by (auto simp: Update_def Update_prepare_def logSlot_def addLog_def demo_id q_def)
  have safe: "safe_data (BlockSize demo_dev) b" using b(2) by (simp add: safe_data_def entryHeaderSize_def chunks.simps)
  have vis: "failed_visible (Err e) (card_data faulty_card) (card_data demo_card) s data" for s data
    by (simp add: failed_visible_def torn_visible_def faulty_ok(2))
  have w': "part_rep 64 (card_data demo_card) (part p') regs" "p' = q\<lparr>part := part p'\<rparr>"
    "part_shape (part p') = part_shape (part q)" "s_journal (p_slots (part p') ! 0) \<noteq> None"
    using faulty.pers_write [OF faulty_ok(1) _ _ rd w safe _ vis] rep lr regs [of 0] by auto
  have f: "directorySlot p' = Some 0" "directoryWriteToken p' = snd (regs ! 0)" "idToSlot p' = [(''61'', 1)]" "freeSlots p' = []"
    by (subst w'(2), use q in \<open>simp add: q_def\<close>)+
  have two: "{Suc 0} = {Suc 0 ..< 2}" by auto
  have "dir_ok 2 [(''61'', 1)] []" by (simp add: dir_ok_def id_ok_def is_hex_def two)
  then have "pers_inv 64 (card_data demo_card) p' regs"
    using w'(1) faulty.slot_read_open [OF w'(1) _ w'(4)] by (simp add: pers_inv_def f lr W32_def)
  with f(3) show ?thesis using up w'(3) q(1) assms(4) by (auto simp: regs_def)
qed

text \<open>The second update writes the checkpoint to the slot, and no directory.\<close>

lemma mapped_update:
  assumes "pers_inv 64 (card_data demo_card) p1 (replicate 2 ([], 0))" "idToSlot p1 = [(''61'', 1)]"
    and "part_shape (part p1) = geo_shape demo_geo"
  shows "\<exists>d2 p2. Update demo_dev line_codec demo_card p1 ''a'' (\<lambda>_. Ok demo_cp) = (Ok (), d2, p2) \<and> card_good 64 d2 \<and>
    pers_inv 64 (card_data d2) p2 [([], 0), (marshalCheckpoint demo_cp, 1)] \<and> idToSlot p2 = [(''61'', 1)] \<and>
    part_shape (part p2) = geo_shape demo_geo"
proof -
  define regs :: "(bytes \<times> 32 word) list" where "regs = [([], 0), ([], 0)]"
  have regs: "regs ! 0 = ([], 0)" "regs ! Suc 0 = ([], 0)" "length regs = 2" by (simp_all add: regs_def)
  have p1: "pers_inv (BlockSize demo_dev) (card_data demo_card) p1 regs" using assms(1) by (simp add: regs_def numeral_2_eq_2)
  have ls: "logSlot demo_dev line_codec demo_card p1 ''61'' True = (Ok 1, demo_card, p1)" by (simp add: logSlot_def assms(2))
  have rel: "reliable demo_dev card_data (card_good 64)" by (rule card_reliable) simp
  have fit: "\<forall>l \<in> set (SlotLengths demo_geo). entryHeaderSize + length (marshalCheckpoint demo_cp) \<le> l * BlockSize demo_dev div minEntries"
    by (simp add: demo_geo_def entryHeaderSize_def marshalCheckpoint_def rawRecordMagic_def demo_cp_def minEntries_def)
  have un: "unmarshalCheckpoint line_codec (fst (regs ! 1)) = Ok []"
    by (simp add: regs unmarshalCheckpoint_def rawRecordMagic_def lines.checkpoint_empty)
  from demo.Update_mapped [OF demo_card_ok(1) p1 assms(3) rel demo_id [symmetric] ls _ un, where f = "\<lambda>_. Ok demo_cp" and new = demo_cp]
  obtain pt1 d2 p2 where u: "Update demo_dev line_codec demo_card p1 ''a'' (\<lambda>_. Ok demo_cp) = (Ok (), d2, p2)"
    "slot_CheckAndWrite demo_dev demo_card (p1\<lparr>part := pt1\<rparr>) 1 (snd (regs ! 1)) (marshalCheckpoint demo_cp) = (Ok (), d2, p2)"
    "pers_inv (BlockSize demo_dev) (card_data demo_card) (p1\<lparr>part := pt1\<rparr>) regs" "Slot_Read (p_slots pt1 ! 1) = Ok (regs ! 1)"
    "part_shape pt1 = part_shape (part p1)" using fit assms(2) by auto
  note P = u(3) [unfolded pers_inv_def]
  have safe: "safe_data (BlockSize demo_dev) (marshalCheckpoint demo_cp)" using demo_safe by simp
  have vis: "failed_visible (Ok ()) bl bl' s data" for bl bl' s data by (simp add: failed_visible_def)
  define regs2 where "regs2 = regs[1 := (marshalCheckpoint demo_cp, 1)]"
  have w: "card_good 64 d2" "part_rep (BlockSize demo_dev) (card_data d2) (part p2) regs2"
    "p2 = p1\<lparr>part := part p2\<rparr>" "\<forall>k. k \<noteq> 1 \<longrightarrow> p_slots (part p2) ! k = p_slots pt1 ! k" "part_shape (part p2) = geo_shape demo_geo"
    using demo.pers_write [where regs = regs, OF demo_card_ok(1) _ _ _ u(2) safe _ vis] P u(4,5) regs assms(3)
    by (auto simp: regs2_def)
  have f: "directorySlot p2 = directorySlot p1" "directoryWriteToken p2 = directoryWriteToken p1" "idToSlot p2 = [(''61'', 1)]"
    "freeSlots p2 = freeSlots p1" by (subst w(3), simp add: assms(2))+
  have P1: "directorySlot p1 = Some 0" "directoryWriteToken p1 = 0" "dir_ok 2 [(''61'', 1)] (freeSlots p1)"
    "Slot_Read (p_slots pt1 ! 0) = Ok ([], 0)" using P assms(2) regs by simp_all
  have two: "{Suc 0 ..< 2} = {Suc 0}" by auto
  have "x \<notin> set (freeSlots p1)" for x
    using P1(3) by (cases "x = Suc 0") (auto simp: dir_ok_def two set_eq_iff)
  then have "freeSlots p1 = []" by (cases "freeSlots p1") auto
  then have "pers_inv 64 (card_data d2) p2 [([], 0), (marshalCheckpoint demo_cp, 1)]"
    using w(2,4) P1 by (simp add: pers_inv_def f W32_def regs2_def regs_def numeral_2_eq_2)
  then show ?thesis using u(1) w(1,5) f(3) by blast
qed

text \<open>
  C6. A checkpoint can be lost after it was stored successfully. When storing the directory fails, \<open>addLog\<close> keeps the
  new log in memory although the device does not have it. The next update of that log then succeeds without
  storing the directory, and \<open>Latest\<close> returns its checkpoint; after a restart the log is not found.
\<close>

theorem checkpoint_lost:
  "\<exists>pt p0 e p1 d2 p2 p3. OpenPartition demo_geo = Ok pt \<and>
    Init demo_dev line_codec faulty_card (NewSlotPersistence pt) = (Ok (), p0) \<and>
    Update demo_dev line_codec faulty_card p0 ''a'' (\<lambda>_. Ok demo_cp) = (Err e, demo_card, p1) \<and>
    Update demo_dev line_codec demo_card p1 ''a'' (\<lambda>_. Ok demo_cp) = (Ok (), d2, p2) \<and>
    fst (Latest demo_dev line_codec d2 p2 ''a'') = Ok demo_cp \<and>
    Init demo_dev line_codec d2 (NewSlotPersistence pt) = (Ok (), p3) \<and>
    fst (Latest demo_dev line_codec d2 p3 ''a'') = Err (StatusError ''NotFound'' ''no slot for log'')"
proof -
  define regs where "regs = [([], 0), (marshalCheckpoint demo_cp, 1 :: 32 word)]"
  obtain pt p0 where p0: "OpenPartition demo_geo = Ok pt" "Init demo_dev line_codec faulty_card (NewSlotPersistence pt) = (Ok (), p0)"
    "pers_inv 64 (card_data demo_card) p0 (replicate 2 ([], 0))" "idToSlot p0 = []" "freeSlots p0 = [1]"
    "part_shape (part p0) = geo_shape demo_geo" using faulty_init by blast
  obtain e p1 where p1: "Update demo_dev line_codec faulty_card p0 ''a'' (\<lambda>_. Ok demo_cp) = (Err e, demo_card, p1)"
    "pers_inv 64 (card_data demo_card) p1 (replicate 2 ([], 0))" "idToSlot p1 = [(''61'', 1)]" "part_shape (part p1) = geo_shape demo_geo"
    using faulty_update [OF p0(3-6)] by blast
  obtain d2 p2 where p2: "Update demo_dev line_codec demo_card p1 ''a'' (\<lambda>_. Ok demo_cp) = (Ok (), d2, p2)" "card_good 64 d2"
    "pers_inv (BlockSize demo_dev) (card_data d2) p2 regs" "idToSlot p2 = [(''61'', 1)]" "part_shape (part p2) = geo_shape demo_geo"
    using mapped_update [OF p1(2-4)] by (auto simp: regs_def)
  have "log_reg p2 regs ''61'' = Some (marshalCheckpoint demo_cp, 1)" by (simp add: log_reg_def p2(4) regs_def)
  then have latest: "fst (Latest demo_dev line_codec d2 p2 ''a'') = Ok demo_cp"
    using demo.Latest_rep [OF p2(2,3), of "''a''"] by (auto simp: demo_id)
  have "part_shape pt = part_shape (part p2)" "list_all (\<lambda>s. s_journal s = None) (p_slots pt)"
    using OpenPartition_shape [OF p0(1)] p2(5) by simp_all
  then have rep: "part_rep (BlockSize demo_dev) (card_data d2) pt regs"
    using part_rep_reopen p2(3) unfolding pers_inv_def by blast
  have two: "{Suc 0 ..< 2} = {Suc 0}" by auto
  from demo.Init_run [OF p2(2) rep, where cx = line_codec and m = "[]" and free = "[1]"] obtain p3 where
    p3: "Init demo_dev line_codec d2 (NewSlotPersistence pt) = (Ok (), p3)" "map_of (idToSlot p3) = Map.empty"
    by (auto simp: regs_def dir_stored_def dir_ok_def numeral_2_eq_2 [symmetric] two lines.unmarshal_empty)
  have "fst (Latest demo_dev line_codec d2 p3 ''a'') = Err (StatusError ''NotFound'' ''no slot for log'')"
    using p3(2) by (simp add: Latest_def logSlot_def)
  with p0(1,2) p1(1) p2(1) latest p3(1) show ?thesis by blast
qed

end
