(* ===== verification/UpdateClient.thy ===== *)
theory UpdateClient
  imports Prelude
begin

text \<open>
  The RPC client that installs firmware, \<open>internal/update/rpc/update_client.go\<close>, and the firmware bundle of
  \<open>internal/firmware/bundle.go\<close>.

  The operating system is a parameter: \<open>call name request state\<close> is \<open>syscall.Call\<close>, and \<open>None\<close> is
  a call that does not return, which is what a successful installation does. \<open>sendChunkedUpdate\<close> has no
  exit but an error, so it is a partial function: not returning is \<open>None\<close>.
\<close>

section \<open>The operations\<close>

record Bundle =
  Checkpoint :: bytes
  Index :: "64 word"
  InclusionProof :: "bytes list"
  Manifest :: bytes
  Firmware :: bytes

record ProofBundle =
  pb_Checkpoint :: bytes
  pb_LogIndex :: "64 word"
  pb_InclusionProof :: "bytes list"
  pb_Manifest :: bytes

record FirmwareUpdate =
  Sequence :: nat
  Image :: bytes
  Proof :: ProofBundle

definition zero_FirmwareUpdate :: FirmwareUpdate where
  "zero_FirmwareUpdate = \<lparr>Sequence = 0, Image = [],
     Proof = \<lparr>pb_Checkpoint = [], pb_LogIndex = 0, pb_InclusionProof = [], pb_Manifest = []\<rparr>\<rparr>"

definition fwUpdateChunkSize :: nat where
  "fwUpdateChunkSize = 2 ^ 20"

type_synonym 'o os_call = "FirmwareUpdate \<Rightarrow> 'o \<Rightarrow> (go_error option \<times> 'o) option"

text \<open>The part of the loop body before the call: the next request, and what is left of the bundle.\<close>

definition next_chunk :: "nat \<Rightarrow> FirmwareUpdate \<Rightarrow> Bundle \<Rightarrow> FirmwareUpdate \<times> Bundle" where
  "next_chunk i fu fb =
     (let rem = length (Firmware fb);
          fu1 = fu\<lparr>Sequence := i\<rparr>;
          (size, fu2) =
            (if rem \<le> fwUpdateChunkSize
             then (rem, fu1\<lparr>Proof := \<lparr>pb_Checkpoint = Checkpoint fb, pb_LogIndex = Index fb,
                     pb_InclusionProof = InclusionProof fb, pb_Manifest = Manifest fb\<rparr>\<rparr>)
             else (fwUpdateChunkSize, fu1))
      in (fu2\<lparr>Image := take size (Firmware fb)\<rparr>, fb\<lparr>Firmware := drop size (Firmware fb)\<rparr>))"

partial_function (option) send_loop ::
    "'o os_call \<Rightarrow> nat \<Rightarrow> FirmwareUpdate \<Rightarrow> Bundle \<Rightarrow> 'o \<Rightarrow> (go_error option \<times> 'o) option" where
  "send_loop call i fu fb st =
     (case next_chunk i fu fb of (fu', fb') \<Rightarrow>
        (case call fu' st of
           None \<Rightarrow> None
         | Some (Some err, st') \<Rightarrow> Some (Some err, st')
         | Some (None, st') \<Rightarrow> send_loop call (uadd i 1) fu' fb' st'))"

definition sendChunkedUpdate :: "(string \<Rightarrow> 'o os_call) \<Rightarrow> string \<Rightarrow> Bundle \<Rightarrow> 'o \<Rightarrow> (go_error option \<times> 'o) option" where
  "sendChunkedUpdate call rpcName fb st = send_loop (call rpcName) 0 zero_FirmwareUpdate fb st"

definition InstallOS :: "(string \<Rightarrow> 'o os_call) \<Rightarrow> Bundle \<Rightarrow> 'o \<Rightarrow> (go_error option \<times> 'o) option" where
  "InstallOS call fb st = sendChunkedUpdate call ''RPC.InstallOS'' fb st"

definition InstallApplet :: "(string \<Rightarrow> 'o os_call) \<Rightarrow> Bundle \<Rightarrow> 'o \<Rightarrow> (go_error option \<times> 'o) option" where
  "InstallApplet call fb st = sendChunkedUpdate call ''RPC.InstallApplet'' fb st"

text \<open>
  The reply of \<open>RPC.GetInstalledVersions\<close> is the pair of versions that the call leaves in its argument; the
  argument starts at the zero versions.
\<close>

definition GetInstalledVersions :: "('v \<times> 'v \<Rightarrow> 'o \<Rightarrow> go_error option \<times> ('v \<times> 'v) \<times> 'o) \<Rightarrow> 'v \<Rightarrow> 'o \<Rightarrow>
    ('v \<times> 'v \<times> go_error option) \<times> 'o" where
  "GetInstalledVersions call zero st =
     (case call (zero, zero) st of (err, (os, applet), st') \<Rightarrow> ((os, applet, err), st'))"

definition Reboot :: "(string \<Rightarrow> 'o \<Rightarrow> go_error option \<times> 'o) \<Rightarrow> 'o \<Rightarrow> 'o" where
  "Reboot call st = snd (call ''RPC.Reboot'' st)"


section \<open>The requests of an update\<close>

text \<open>Request number \<open>i\<close> of the update with a bundle, in terms of the bundle alone.\<close>

definition bundle_proof :: "Bundle \<Rightarrow> ProofBundle" where
  "bundle_proof fb = \<lparr>pb_Checkpoint = Checkpoint fb, pb_LogIndex = Index fb,
     pb_InclusionProof = InclusionProof fb, pb_Manifest = Manifest fb\<rparr>"

definition request :: "Bundle \<Rightarrow> nat \<Rightarrow> FirmwareUpdate" where
  "request fb i = \<lparr>Sequence = i mod W32,
     Image = take fwUpdateChunkSize (drop (i * fwUpdateChunkSize) (Firmware fb)),
     Proof = (if length (Firmware fb) \<le> Suc i * fwUpdateChunkSize then bundle_proof fb
              else Proof zero_FirmwareUpdate)\<rparr>"

text \<open>The state after the operating system accepted these requests, if it accepts each.\<close>

fun accepted :: "'o os_call \<Rightarrow> FirmwareUpdate list \<Rightarrow> 'o \<Rightarrow> 'o option" where
  "accepted call [] st = Some st"
| "accepted call (fu # fus) st =
     (case call fu st of
        Some (None, st') \<Rightarrow> accepted call fus st'
      | _ \<Rightarrow> None)"

lemma accepted_append:
  "accepted call (xs @ ys) st = (case accepted call xs st of None \<Rightarrow> None | Some st' \<Rightarrow> accepted call ys st')"
  by (induction call xs st rule: accepted.induct) (auto split: option.split)

text \<open>The state of the loop before request \<open>i\<close>: the last request, and what is left of the bundle.\<close>

definition sent :: "Bundle \<Rightarrow> nat \<Rightarrow> FirmwareUpdate" where
  "sent fb i = (case i of 0 \<Rightarrow> zero_FirmwareUpdate | Suc k \<Rightarrow> request fb k)"

definition left :: "Bundle \<Rightarrow> nat \<Rightarrow> Bundle" where
  "left fb i = fb\<lparr>Firmware := drop (i * fwUpdateChunkSize) (Firmware fb)\<rparr>"

lemma next_chunk_request:
  "next_chunk (i mod W32) (sent fb i) (left fb i) = (request fb i, left fb (Suc i))"
proof (cases "length (Firmware fb) \<le> Suc i * fwUpdateChunkSize")
  case True
  then have "length (Firmware fb) - i * fwUpdateChunkSize \<le> fwUpdateChunkSize" by simp
  with True show ?thesis
    by (simp add: next_chunk_def left_def request_def bundle_proof_def)
next
  case False
  have "Proof (sent fb i) = Proof zero_FirmwareUpdate" using False by (cases i) (auto simp: sent_def request_def)
  moreover have "\<not> length (Firmware fb) - i * fwUpdateChunkSize \<le> fwUpdateChunkSize" using False by simp
  ultimately show ?thesis using False
    by (simp add: next_chunk_def left_def request_def add.commute)
qed

lemma seq_next: "uadd (i mod W32) 1 = Suc i mod W32"
  by (simp add: uadd_def mod_Suc_eq)

lemma send_step:
  "send_loop call (i mod W32) (sent fb i) (left fb i) st =
    (case call (request fb i) st of
       None \<Rightarrow> None
     | Some (Some err, st') \<Rightarrow> Some (Some err, st')
     | Some (None, st') \<Rightarrow> send_loop call (Suc i mod W32) (sent fb (Suc i)) (left fb (Suc i)) st')"
  unfolding send_loop.simps [of call "i mod W32"] next_chunk_request seq_next by (simp add: sent_def split: option.split)

lemma send_accepted:
  "accepted call (map (request fb) [0 ..< n]) st = Some st' \<Longrightarrow>
    send_loop call 0 zero_FirmwareUpdate fb st = send_loop call (n mod W32) (sent fb n) (left fb n) st'"
proof (induction n arbitrary: st')
  case (Suc n)
  then obtain st1 where st1: "accepted call (map (request fb) [0 ..< n]) st = Some st1"
    "call (request fb n) st1 = Some (None, st')"
    by (auto simp: accepted_append split: option.splits)
  with Suc.IH [OF st1(1)] send_step [of call n fb st1] show ?case by simp
qed (simp add: sent_def left_def)

lemma send_returns:
  assumes "send_loop call i fu fb st = Some y"
  shows "\<forall>k. i = k mod W32 \<longrightarrow> fu = sent fb0 k \<longrightarrow> fb = left fb0 k \<longrightarrow>
    (\<exists>n e st1. fst y = Some e \<and> accepted call (map (request fb0) [k ..< k + n]) st = Some st1 \<and>
      call (request fb0 (k + n)) st1 = Some (Some e, snd y))"
proof (rule send_loop.raw_induct [OF _ assms], intro allI impI)
  fix loop :: "'a os_call \<Rightarrow> nat \<Rightarrow> FirmwareUpdate \<Rightarrow> Bundle \<Rightarrow> 'a \<Rightarrow> (go_error option \<times> 'a) option"
    and call i fu fb st y k
  assume IH: "\<And>call i fu fb st y. loop call i fu fb st = Some y \<Longrightarrow>
      \<forall>k. i = k mod W32 \<longrightarrow> fu = sent fb0 k \<longrightarrow> fb = left fb0 k \<longrightarrow>
        (\<exists>n e st1. fst y = Some e \<and> accepted call (map (request fb0) [k ..< k + n]) st = Some st1 \<and>
          call (request fb0 (k + n)) st1 = Some (Some e, snd y))"
    and body: "(case next_chunk i fu fb of (fu', fb') \<Rightarrow> (case call fu' st of
        None \<Rightarrow> None | Some (None, st') \<Rightarrow> loop call (uadd i 1) fu' fb' st' | Some (Some err, st') \<Rightarrow> Some (Some err, st'))) = Some y"
    and h: "i = k mod W32" "fu = sent fb0 k" "fb = left fb0 k"
  consider (err) e st' where "call (request fb0 k) st = Some (Some e, st')" "y = (Some e, st')"
    | (more) st' where "call (request fb0 k) st = Some (None, st')"
      "loop call (Suc k mod W32) (request fb0 k) (left fb0 (Suc k)) st' = Some y"
    using body unfolding h next_chunk_request seq_next by (auto split: option.splits)
  then show "\<exists>n e st1. fst y = Some e \<and> accepted call (map (request fb0) [k ..< k + n]) st = Some st1 \<and>
      call (request fb0 (k + n)) st1 = Some (Some e, snd y)"
  proof cases
    case err
    then show ?thesis by (intro exI [of _ 0]) simp
  next
    case more
    have "request fb0 k = sent fb0 (Suc k)" by (simp add: sent_def)
    with IH [OF more(2)] obtain n e st1 where
      n: "fst y = Some e" "accepted call (map (request fb0) [Suc k ..< Suc k + n]) st' = Some st1"
      "call (request fb0 (Suc k + n)) st1 = Some (Some e, snd y)" by blast
    have "[k ..< k + Suc n] = k # [Suc k ..< Suc k + n]" by (simp add: upt_rec)
    with n more(1) show ?thesis by (intro exI [of _ "Suc n"] exI [of _ e] exI [of _ st1]) simp
  qed
qed


lemma sent_result:
  "sendChunkedUpdate call rpcName fb st = Some (r, st') \<longleftrightarrow>
    (\<exists>n e st1. r = Some e \<and> accepted (call rpcName) (map (request fb) [0 ..< n]) st = Some st1 \<and>
      call rpcName (request fb n) st1 = Some (Some e, st'))"
proof
  assume "sendChunkedUpdate call rpcName fb st = Some (r, st')"
  then have "send_loop (call rpcName) (0 mod W32) (sent fb 0) (left fb 0) st = Some (r, st')"
    by (simp add: sendChunkedUpdate_def sent_def left_def)
  from spec [OF send_returns [OF this, of fb], of 0] show "\<exists>n e st1. r = Some e \<and>
      accepted (call rpcName) (map (request fb) [0 ..< n]) st = Some st1 \<and>
      call rpcName (request fb n) st1 = Some (Some e, st')" by simp
next
  assume "\<exists>n e st1. r = Some e \<and> accepted (call rpcName) (map (request fb) [0 ..< n]) st = Some st1 \<and>
      call rpcName (request fb n) st1 = Some (Some e, st')"
  then obtain n e st1 where "r = Some e" "accepted (call rpcName) (map (request fb) [0 ..< n]) st = Some st1"
    "call rpcName (request fb n) st1 = Some (Some e, st')" by blast
  with send_accepted [of "call rpcName"] send_step [of "call rpcName" n fb st1] show "sendChunkedUpdate call rpcName fb st = Some (r, st')"
    by (simp add: sendChunkedUpdate_def)
qed


section \<open>Properties\<close>

text \<open>
  C15. What an update sends, and when it returns. The requests are numbered, carry the firmware in pieces of one
  megabyte in order, and only the last piece comes with the proof; \<open>sendChunkedUpdate\<close> returns exactly when
  the operating system answers a request with an error after accepting all before it, and returns that error.
\<close>

theorem update_requests:
  "sendChunkedUpdate call rpcName fb st = Some (r, st') \<longleftrightarrow>
    (\<exists>n e st1. r = Some e \<and> accepted (call rpcName) (map (request fb) [0 ..< n]) st = Some st1 \<and>
      call rpcName (request fb n) st1 = Some (Some e, st'))"
  by (rule sent_result)

lemma request_images: "concat (map (\<lambda>i. Image (request fb i)) [0 ..< n]) = take (n * fwUpdateChunkSize) (Firmware fb)"
proof (induction n)
  case (Suc n)
  then show ?case by (simp add: request_def add.commute flip: take_add)
qed simp

text \<open>An operating system that records \<open>n\<close> requests and answers the next with an error.\<close>

definition recorder :: "nat \<Rightarrow> go_error \<Rightarrow> string \<Rightarrow> FirmwareUpdate list os_call" where
  "recorder n e rpcName fu log = (if length log < n then Some (None, log @ [fu]) else Some (Some e, log))"

lemma recorder_accepts: "length log + length fus \<le> n \<Longrightarrow> accepted (recorder n e rpcName) fus log = Some (log @ fus)"
  by (induction fus arbitrary: log) (simp_all add: recorder_def)

text \<open>
  C16. The firmware arrives whole and once: the requests for a firmware of \<open>n\<close> megabytes, the last one begun, carry it
  in order in \<open>n\<close> nonempty images of at most a megabyte, with their numbers, and only the last of them
  comes with the proof.
\<close>

theorem update_complete:
  assumes "Firmware fb \<noteq> []" "n = nblocks fwUpdateChunkSize (length (Firmware fb))"
  shows "\<exists>log. sendChunkedUpdate (recorder n e) rpcName fb [] = Some (Some e, log) \<and> length log = n \<and>
    concat (map Image log) = Firmware fb \<and>
    (\<forall>i < n. Sequence (log ! i) = i mod W32 \<and> Image (log ! i) \<noteq> [] \<and> length (Image (log ! i)) \<le> fwUpdateChunkSize \<and>
      Proof (log ! i) = (if Suc i < n then Proof zero_FirmwareUpdate else bundle_proof fb))"
proof -
  let ?log = "map (request fb) [0 ..< n]"
  have C: "0 < fwUpdateChunkSize" by (simp add: fwUpdateChunkSize_def)
  have le: "length (Firmware fb) \<le> k * fwUpdateChunkSize \<longleftrightarrow> n \<le> k" for k
    using nblocks_le_iff [OF C, of "length (Firmware fb)" k] assms(2) by auto
  have "accepted (recorder n e rpcName) ?log [] = Some ?log" using recorder_accepts [of "[]" ?log] by simp
  then have "sendChunkedUpdate (recorder n e) rpcName fb [] = Some (Some e, ?log)"
    unfolding sent_result by (intro exI [of _ n] exI [of _ e] exI [of _ ?log]) (simp add: recorder_def)
  moreover have "concat (map Image ?log) = Firmware fb"
    using request_images [of fb n] le [of n] by (simp add: comp_def)
  moreover have "Sequence (?log ! i) = i mod W32 \<and> Image (?log ! i) \<noteq> [] \<and> length (Image (?log ! i)) \<le> fwUpdateChunkSize \<and>
      Proof (?log ! i) = (if Suc i < n then Proof zero_FirmwareUpdate else bundle_proof fb)" if "i < n" for i
    using le [of i] le [of "Suc i"] that C by (simp add: request_def)
  ultimately show ?thesis by (intro exI [of _ ?log]) simp
qed

theorem update_complete_witness:
  "\<exists>log. sendChunkedUpdate (recorder 1 (Sentinel ''stop'')) ''RPC.InstallOS''
      \<lparr>Checkpoint = [1], Index = 2, InclusionProof = [], Manifest = [3], Firmware = [4, 5]\<rparr> [] = Some (Some (Sentinel ''stop''), log) \<and>
    concat (map Image log) = [4, 5]"
  using update_complete [of "\<lparr>Checkpoint = [1], Index = 2, InclusionProof = [], Manifest = [3], Firmware = [4, 5]\<rparr>" 1
    "Sentinel ''stop''" "''RPC.InstallOS''"]
  by (auto simp: nblocks_def fwUpdateChunkSize_def)

text \<open>
  An operating system that answers every request without an error keeps the update running for ever: only an
  installation that does not return, or an error, ends it.
\<close>

lemma update_never_returns_nil:
  assumes "\<And>fu s. \<exists>s'. call rpcName fu s = Some (None, s')"
  shows "sendChunkedUpdate call rpcName fb st = None"
proof (cases "sendChunkedUpdate call rpcName fb st")
  case (Some y)
  then obtain n e st1 where "call rpcName (request fb n) st1 = Some (Some e, snd y)"
    using sent_result [of call rpcName fb st "fst y" "snd y"] by auto
  moreover obtain s' where "call rpcName (request fb n) st1 = Some (None, s')" using assms by blast
  ultimately show ?thesis by simp
qed

end
