(* ===== verification/FwUpdate.thy ===== *)
theory FwUpdate
  imports UpdateClient
begin

text \<open>
  The firmware updater's configuration, \<open>update.go\<close>: the verification policy of a firmware bundle, the HTTP
  fetcher, and \<open>updater\<close>, which puts them together.

  Parameters, in the record \<open>update_env\<close>: the note and bundle verification, JSON, URL and HTTP packages and
  the update package of \<open>armored-witness-common\<close>. Verifiers are values of type \<open>'v\<close>, URLs of
  type \<open>'u\<close>, releases of type \<open>'rel\<close>; \<open>'w\<close> is the state of the network. \<open>Body\<close> of a response is
  what \<open>io.ReadAll\<close> reads from it: the bytes, and an error if the connection broke before the end.
\<close>

section \<open>The operations\<close>

record 'v BundleVerifier =
  bv_LogOrigin :: string
  bv_LogVerifer :: 'v
  bv_ManifestVerifiers :: "'v list"

record 'v fwVerifier =
  logOrigin :: string
  logVerifier :: 'v
  appletBundleVerifier :: "'v BundleVerifier"
  osBundleVerifier :: "'v BundleVerifier"

record response =
  StatusCode :: nat
  Body :: "bytes \<times> go_error option"

type_synonym 'w fetch = "string \<Rightarrow> 'w \<Rightarrow> bytes res \<times> 'w"

record ('v, 'rel, 'w) FetcherOpts =
  fo_LogFetcher :: "'w fetch"
  fo_LogOrigin :: string
  fo_LogVerifier :: 'v
  fo_BinaryFetcher :: "'rel \<Rightarrow> 'w \<Rightarrow> (bytes \<times> bytes) res \<times> 'w"
  fo_AppletVerifier :: 'v
  fo_OSVerifiers :: "'v \<times> 'v"

record ('v, 'u, 'rel, 'w, 'f, 'upd) update_env =
  note_NewVerifier :: "string \<Rightarrow> 'v res"
  note_Open :: "bytes \<Rightarrow> 'v list \<Rightarrow> string res"
  json_Component :: "string \<Rightarrow> string res"
  ComponentApplet :: string
  ComponentOS :: string
  bundle_Verify :: "'v BundleVerifier \<Rightarrow> Bundle \<Rightarrow> 'rel res"
  url_Parse :: "string \<Rightarrow> 'u res"
  url_Resolve :: "'u \<Rightarrow> string \<Rightarrow> 'u res"
  url_String :: "'u \<Rightarrow> string"
  http_NewRequest :: "string \<Rightarrow> unit res"
  http_Do :: "string \<Rightarrow> nat \<Rightarrow> 'w \<Rightarrow> response res \<times> 'w"
  body_Close :: "response \<Rightarrow> 'w \<Rightarrow> 'w"
  update_BinaryPath :: "'rel \<Rightarrow> string res"
  update_NewFetcher :: "('v, 'rel, 'w) FetcherOpts \<Rightarrow> 'w \<Rightarrow> 'f res \<times> 'w"
  update_NewUpdater :: "'f \<Rightarrow> 'v fwVerifier \<Rightarrow> 'upd res"

definition newFWVerifier :: "string \<Rightarrow> 'v \<Rightarrow> 'v \<Rightarrow> 'v list \<Rightarrow> 'v fwVerifier" where
  "newFWVerifier origin lv av osv =
     \<lparr>logOrigin = origin, logVerifier = lv,
      appletBundleVerifier = \<lparr>bv_LogOrigin = origin, bv_LogVerifer = lv, bv_ManifestVerifiers = [av]\<rparr>,
      osBundleVerifier = \<lparr>bv_LogOrigin = origin, bv_LogVerifer = lv, bv_ManifestVerifiers = osv\<rparr>\<rparr>"

definition fwVerify :: "('v, 'u, 'rel, 'w, 'f, 'upd) update_env \<Rightarrow> 'v fwVerifier \<Rightarrow> Bundle \<Rightarrow> unit res" where
  "fwVerify env fw b =
     (let allVerifiers = bv_ManifestVerifiers (appletBundleVerifier fw) @ bv_ManifestVerifiers (osBundleVerifier fw)
      in case note_Open env (Manifest b) allVerifiers of
           Err e \<Rightarrow> Err (Errorf ''failed to open manifest: %v'' [e])
         | Panic x \<Rightarrow> Panic x
         | Ok m \<Rightarrow>
             (case json_Component env m of
                Err e \<Rightarrow> Err (Errorf ''failed to unmarshal manifest: %v'' [e])
              | Panic x \<Rightarrow> Panic x
              | Ok component \<Rightarrow>
                  if component = ComponentApplet env
                  then (case bundle_Verify env (appletBundleVerifier fw) b of
                          Err e \<Rightarrow> Err e | Panic x \<Rightarrow> Panic x | Ok _ \<Rightarrow> Ok ())
                  else if component = ComponentOS env
                  then (case bundle_Verify env (osBundleVerifier fw) b of
                          Err e \<Rightarrow> Err e | Panic x \<Rightarrow> Panic x | Ok _ \<Rightarrow> Ok ())
                  else Err (Errorf ''non updatable component %q'' [])))"

definition readHTTP :: "('v, 'u, 'rel, 'w, 'f, 'upd) update_env \<Rightarrow> 'u \<Rightarrow> nat \<Rightarrow> bool \<Rightarrow> 'w \<Rightarrow> bytes res \<times> 'w" where
  "readHTTP env u timeout logProgress w =
     (case http_NewRequest env (url_String env u) of
        Err e \<Rightarrow> (Err e, w)
      | Panic x \<Rightarrow> (Panic x, w)
      | Ok _ \<Rightarrow>
          (case http_Do env (url_String env u) timeout w of
             (Err e, w') \<Rightarrow> (Err (Errorf ''http.Client.Do(): %v'' [e]), w')
           | (Panic x, w') \<Rightarrow> (Panic x, w')
           | (Ok resp, w') \<Rightarrow>
               if StatusCode resp = 404 then (Err (Sentinel ''os.ErrNotExist''), w')
               else if StatusCode resp = 200 then
                 (let (b, err) = Body resp in (Ok b, body_Close env resp w'))
               else (Err (Errorf ''unexpected http status %q'' []), w')))"

definition newFetcher :: "('v, 'u, 'rel, 'w, 'f, 'upd) update_env \<Rightarrow> 'u \<Rightarrow> nat \<Rightarrow> bool \<Rightarrow> 'w fetch" where
  "newFetcher env root httpTimeout logProgress p w =
     (case url_Resolve env root p of
        Err e \<Rightarrow> (Err e, w)
      | Panic x \<Rightarrow> (Panic x, w)
      | Ok u \<Rightarrow> readHTTP env u httpTimeout logProgress w)"

record update_vars =
  updateBinariesURL :: string
  updateLogURL :: string
  updateLogOrigin :: string
  updateLogVerifier :: string
  updateAppletVerifier :: string
  updateOSVerifier1 :: string
  updateOSVerifier2 :: string

text \<open>The base of a relative URL ends with a slash; indexing the last byte of an empty string panics.\<close>

definition with_slash :: "string \<Rightarrow> string res" where
  "with_slash s = (if s = [] then Panic IndexOutOfRange else if last s \<noteq> CHR ''/'' then Ok (s @ ''/'') else Ok s)"

definition binFetcher :: "('v, 'u, 'rel, 'w, 'f, 'upd) update_env \<Rightarrow> 'w fetch \<Rightarrow> 'rel \<Rightarrow> 'w \<Rightarrow> (bytes \<times> bytes) res \<times> 'w" where
  "binFetcher env bf r w =
     (case update_BinaryPath env r of
        Err e \<Rightarrow> (Err (Errorf ''BinaryPath: %v'' [e]), w)
      | Panic x \<Rightarrow> (Panic x, w)
      | Ok p \<Rightarrow>
          (case bf p w of
             (Ok bin, w') \<Rightarrow> (Ok (bin, []), w')
           | (Err e, w') \<Rightarrow> (Err e, w')
           | (Panic x, w') \<Rightarrow> (Panic x, w')))"

definition updater :: "('v, 'u, 'rel, 'w, 'f, 'upd) update_env \<Rightarrow> update_vars \<Rightarrow> 'w \<Rightarrow>
    ('f \<times> 'upd) res \<times> update_vars \<times> 'w" where
  "updater env vars w =
     (case with_slash (updateLogURL vars) of
        Err e \<Rightarrow> (Err e, vars, w)
      | Panic x \<Rightarrow> (Panic x, vars, w)
      | Ok lurl \<Rightarrow>
     (let vars1 = vars\<lparr>updateLogURL := lurl\<rparr>
      in case url_Parse env lurl of
        Err e \<Rightarrow> (Err (Errorf ''firmware log URL invalid: %v'' [e]), vars1, w)
      | Panic x \<Rightarrow> (Panic x, vars1, w)
      | Ok logBaseURL \<Rightarrow>
     (case note_NewVerifier env (updateLogVerifier vars) of
        Err e \<Rightarrow> (Err (Errorf ''invalid firmware log verifier: %v'' [e]), vars1, w)
      | Panic x \<Rightarrow> (Panic x, vars1, w)
      | Ok lv \<Rightarrow>
     (case note_NewVerifier env (updateAppletVerifier vars) of
        Err e \<Rightarrow> (Err (Errorf ''invalid applet verifier: %v'' [e]), vars1, w)
      | Panic x \<Rightarrow> (Panic x, vars1, w)
      | Ok av \<Rightarrow>
     (case note_NewVerifier env (updateOSVerifier1 vars) of
        Err e \<Rightarrow> (Err (Errorf ''invalid OS verifier 1: %v'' [e]), vars1, w)
      | Panic x \<Rightarrow> (Panic x, vars1, w)
      | Ok osv1 \<Rightarrow>
     (case note_NewVerifier env (updateOSVerifier2 vars) of
        Err e \<Rightarrow> (Err (Errorf ''invalid OS verifier 2: %v'' [e]), vars1, w)
      | Panic x \<Rightarrow> (Panic x, vars1, w)
      | Ok osv2 \<Rightarrow>
     (case with_slash (updateBinariesURL vars1) of
        Err e \<Rightarrow> (Err e, vars1, w)
      | Panic x \<Rightarrow> (Panic x, vars1, w)
      | Ok burl \<Rightarrow>
     (let vars2 = vars1\<lparr>updateBinariesURL := burl\<rparr>
      in case url_Parse env burl of
        Err e \<Rightarrow> (Err (Errorf ''binaries URL invalid: %v'' [e]), vars2, w)
      | Panic x \<Rightarrow> (Panic x, vars2, w)
      | Ok binBaseURL \<Rightarrow>
     (case update_NewFetcher env
             \<lparr>fo_LogFetcher = newFetcher env logBaseURL 30 False,
              fo_LogOrigin = updateLogOrigin vars,
              fo_LogVerifier = lv,
              fo_BinaryFetcher = binFetcher env (newFetcher env binBaseURL (5 * 60) True),
              fo_AppletVerifier = av,
              fo_OSVerifiers = (osv1, osv2)\<rparr> w of
        (Err e, w') \<Rightarrow> (Err (Errorf ''NewFetcher: %v'' [e]), vars2, w')
      | (Panic x, w') \<Rightarrow> (Panic x, vars2, w')
      | (Ok updateFetcher, w') \<Rightarrow>
     (case update_NewUpdater env updateFetcher (newFWVerifier (updateLogOrigin vars) lv av [osv1, osv2]) of
        Err e \<Rightarrow> (Err (Errorf ''NewUdater: %v'' [e]), vars2, w')
      | Panic x \<Rightarrow> (Panic x, vars2, w')
      | Ok upd \<Rightarrow> (Ok (updateFetcher, upd), vars2, w')))))))))))"


section \<open>Properties\<close>

text \<open>
  C17. The keys are not interchangeable. A bundle passes only as the component that its manifest names, and, as
  bundle verification demands the signature of every manifest verifier, an applet needs the applet key's
  signature and an OS those of both OS keys; no other component passes.
\<close>

theorem verify_keys:
  assumes "\<And>bv b r. bundle_Verify env bv b = Ok r \<Longrightarrow> list_all (\<lambda>v. has_signed v (Manifest b)) (bv_ManifestVerifiers bv)"
    and "fwVerify env (newFWVerifier origin lv av [os1, os2]) b = Ok ()"
  shows "\<exists>m component. note_Open env (Manifest b) [av, os1, os2] = Ok m \<and> json_Component env m = Ok component \<and>
    (component = ComponentApplet env \<and> has_signed av (Manifest b) \<or>
     component = ComponentOS env \<and> has_signed os1 (Manifest b) \<and> has_signed os2 (Manifest b))"
  using assms(2) assms(1) [of "\<lparr>bv_LogOrigin = origin, bv_LogVerifer = lv, bv_ManifestVerifiers = [av]\<rparr>" b]
    assms(1) [of "\<lparr>bv_LogOrigin = origin, bv_LogVerifer = lv, bv_ManifestVerifiers = [os1, os2]\<rparr>" b]
  by (auto simp: fwVerify_def newFWVerifier_def Let_def split: res.splits if_splits)

text \<open>
  An environment for the witnesses. A manifest is the component's byte followed by the bytes of the keys that
  signed it; every server answers with the status \<open>w\<close> of the network.
\<close>

definition demo_updates :: "(byte, string, unit, nat, unit, byte fwVerifier) update_env" where
  "demo_updates = \<lparr>note_NewVerifier = (\<lambda>s. Ok (of_nat (length s))),
     note_Open = (\<lambda>m vs. case m of [] \<Rightarrow> Err (Sentinel ''unsigned'')
       | c # sigs \<Rightarrow> if list_ex (\<lambda>v. v \<in> set sigs) vs then Ok (if c = 111 then ''o'' else ''a'') else Err (Sentinel ''unsigned'')),
     json_Component = Ok, ComponentApplet = ''a'', ComponentOS = ''o'',
     bundle_Verify = (\<lambda>bv b. if list_all (\<lambda>v. v \<in> set (tl (Manifest b))) (bv_ManifestVerifiers bv) then Ok ()
       else Err (Sentinel ''signature'')),
     url_Parse = Ok, url_Resolve = (\<lambda>u p. Ok (u @ p)), url_String = (\<lambda>u. u), http_NewRequest = (\<lambda>u. Ok ()),
     http_Do = (\<lambda>u t w. (Ok \<lparr>StatusCode = w, Body = ([1, 2], Some (Sentinel ''unexpected EOF''))\<rparr>, Suc w)),
     body_Close = (\<lambda>r w. w - 1), update_BinaryPath = (\<lambda>r. Ok ''bin''),
     update_NewFetcher = (\<lambda>opts w. (Ok (), w)), update_NewUpdater = (\<lambda>f v. Ok v)\<rparr>"

theorem verify_keys_witness:
  "\<exists>m. note_Open demo_updates [111, 2, 3] [1, 2, 3] = Ok m \<and> json_Component demo_updates m = Ok ''o''"
proof -
  define b :: Bundle where
    "b = \<lparr>Checkpoint = [], Index = 0, InclusionProof = [], Manifest = [111, 2, 3], Firmware = [9]\<rparr>"
  have "fwVerify demo_updates (newFWVerifier ''log'' 7 1 [2, 3]) b = Ok ()"
    by (simp add: fwVerify_def newFWVerifier_def demo_updates_def b_def)
  moreover have "bundle_Verify demo_updates bv b' = Ok r \<Longrightarrow> list_all (\<lambda>v. v \<in> set (tl (Manifest b'))) (bv_ManifestVerifiers bv)"
    for bv b' r by (simp add: demo_updates_def split: if_splits)
  ultimately have "\<exists>m component. note_Open demo_updates (Manifest b) [1, 2, 3] = Ok m \<and> json_Component demo_updates m = Ok component \<and>
    (component = ComponentApplet demo_updates \<and> 1 \<in> set (tl (Manifest b)) \<or> component = ComponentOS demo_updates \<and>
      2 \<in> set (tl (Manifest b)) \<and> 3 \<in> set (tl (Manifest b)))"
    by (intro verify_keys [where has_signed = "\<lambda>v m. v \<in> set (tl m)"])
  then show ?thesis by (auto simp: b_def demo_updates_def)
qed

lemma with_slash_Ok: "with_slash s = Ok t \<Longrightarrow> last t = CHR ''/'' \<and> with_slash t = Ok t"
  by (auto simp: with_slash_def split: if_splits)

text \<open>
  The updater is consistent: the keys and the log origin that its fetcher finds releases with are those that
  its verifier accepts them with, the base URLs end with a slash, and calling \<open>updater\<close> again with the
  variables it leaves gives the same updater and changes no variable.
\<close>

lemma updater_consistent:
  assumes "updater env vars w = (Ok (f, upd), vars', w')"
  shows "(\<exists>opts o1 o2. update_NewFetcher env opts w = (Ok f, w') \<and> fo_OSVerifiers opts = (o1, o2) \<and>
      update_NewUpdater env f (newFWVerifier (fo_LogOrigin opts) (fo_LogVerifier opts) (fo_AppletVerifier opts) [o1, o2]) = Ok upd) \<and>
    last (updateLogURL vars') = CHR ''/'' \<and> last (updateBinariesURL vars') = CHR ''/'' \<and>
    updater env vars' w = (Ok (f, upd), vars', w')"
proof -
  from assms obtain lurl burl lb bb lv av o1 o2 where
    u: "with_slash (updateLogURL vars) = Ok lurl" "with_slash (updateBinariesURL vars) = Ok burl"
      "url_Parse env lurl = Ok lb" "url_Parse env burl = Ok bb"
    and v: "note_NewVerifier env (updateLogVerifier vars) = Ok lv" "note_NewVerifier env (updateAppletVerifier vars) = Ok av"
      "note_NewVerifier env (updateOSVerifier1 vars) = Ok o1" "note_NewVerifier env (updateOSVerifier2 vars) = Ok o2"
    and f: "update_NewFetcher env \<lparr>fo_LogFetcher = newFetcher env lb 30 False, fo_LogOrigin = updateLogOrigin vars,
        fo_LogVerifier = lv, fo_BinaryFetcher = binFetcher env (newFetcher env bb (5 * 60) True),
        fo_AppletVerifier = av, fo_OSVerifiers = (o1, o2)\<rparr> w = (Ok f, w')"
      "update_NewUpdater env f (newFWVerifier (updateLogOrigin vars) lv av [o1, o2]) = Ok upd"
    and vars': "vars' = vars\<lparr>updateLogURL := lurl, updateBinariesURL := burl\<rparr>"
    by (auto simp: updater_def Let_def split: res.splits prod.splits)
  have "\<exists>opts o1 o2. update_NewFetcher env opts w = (Ok f, w') \<and> fo_OSVerifiers opts = (o1, o2) \<and>
      update_NewUpdater env f (newFWVerifier (fo_LogOrigin opts) (fo_LogVerifier opts) (fo_AppletVerifier opts) [o1, o2]) = Ok upd"
    using f by (intro exI conjI) (assumption, simp_all)
  moreover have "last (updateLogURL vars') = CHR ''/'' \<and> last (updateBinariesURL vars') = CHR ''/''"
    using with_slash_Ok [OF u(1)] with_slash_Ok [OF u(2)] by (simp add: vars')
  moreover have "updater env vars' w = (Ok (f, upd), vars', w')"
    using with_slash_Ok [OF u(1)] with_slash_Ok [OF u(2)] u(3,4) v f by (simp add: updater_def vars' Let_def)
  ultimately show ?thesis by blast
qed

text \<open>
  A download that breaks off counts as complete: \<open>readHTTP\<close> succeeds exactly on a response of status 200,
  with the bytes that arrived, also when reading the body failed.
\<close>

lemma readHTTP_ignores_read_error:
  "fst (readHTTP env u timeout logProgress w) = Ok b \<longleftrightarrow>
    (\<exists>w' err. http_NewRequest env (url_String env u) = Ok () \<and>
      http_Do env (url_String env u) timeout w = (Ok \<lparr>StatusCode = 200, Body = (b, err)\<rparr>, w'))"
  by (auto simp: readHTTP_def Let_def split: res.splits prod.splits) (metis response.surjective old.unit.exhaust)+

text \<open>
  Only the body of a response with status 200 is closed: after any other status the network is left as the
  request left it, with the connection open.
\<close>

lemma readHTTP_leaves_body_open:
  assumes "http_NewRequest env (url_String env u) = Ok ()"
    and "http_Do env (url_String env u) timeout w = (Ok resp, w')" "StatusCode resp \<noteq> 200"
  shows "\<exists>e. readHTTP env u timeout logProgress w = (Err e, w')"
  using assms by (auto simp: readHTTP_def)

end
