(* ===== verification/UpdateChecker.thy ===== *)
theory UpdateChecker
  imports FwUpdate
begin

text \<open>
  The update checker of \<open>main.go\<close>: a goroutine that turns the ticks of a timer into messages on a channel of
  capacity one, a worker that looks for firmware updates on each message, and the \<open>/updatecheck\<close> handler of
  the admin server, which sends on the same channel.

  The goroutines are a step relation: a program counter for each, one step per channel operation. A handler that
  sends on the closed channel panics; the HTTP server recovers from it, so it is counted and nothing else changes. What the
  worker does with a message is the function \<open>on_trigger\<close>. \<open>Fetcher.Scan\<close> and \<open>Updater.Update\<close> are
  parameters, and so is \<open>updater\<close>, which \<open>FwUpdate\<close> models.
\<close>

section \<open>The goroutines\<close>

record ('f, 'u, 'w) check_env =
  new_updater :: "'w \<Rightarrow> ('f \<times> 'u) res \<times> 'w"
  fetcher_Scan :: "'f \<Rightarrow> 'w \<Rightarrow> unit res \<times> 'w"
  updater_Update :: "'u \<Rightarrow> 'w \<Rightarrow> unit res \<times> 'w"

datatype ticker_pc = TickSelect | TickSend | TickEnd

datatype worker_pc = WorkSelect | WorkRun | WorkEnd | WorkCrash

record ('f, 'u) checker =
  updateFetcher :: "'f option"
  updateClient :: "'u option"
  firmwareUpdateAttempt :: nat
  firmwareUpdateSuccess :: nat
  trigger :: nat
  triggerClosed :: bool
  ticker :: ticker_pc
  worker :: worker_pc
  ctxDone :: bool
  handlerPanics :: nat

definition updateChecker :: "('f, 'u) checker" where
  "updateChecker = \<lparr>updateFetcher = None, updateClient = None, firmwareUpdateAttempt = 0, firmwareUpdateSuccess = 0,
     trigger = 0, triggerClosed = False, ticker = TickSelect, worker = WorkSelect, ctxDone = False,
     handlerPanics = 0\<rparr>"

definition triggerCap :: nat where
  "triggerCap = 1"

text \<open>The scan and the update, once there is an updater.\<close>

definition scan_update :: "('f, 'u, 'w) check_env \<Rightarrow> 'f \<Rightarrow> 'u \<Rightarrow> ('f, 'u) checker \<Rightarrow> 'w \<Rightarrow> unit res \<times> ('f, 'u) checker \<times> 'w" where
  "scan_update env f u s w =
     (let s1 = s\<lparr>firmwareUpdateAttempt := firmwareUpdateAttempt s + 1\<rparr>
      in case fetcher_Scan env f w of
           (Panic x, w1) \<Rightarrow> (Panic x, s1, w1)
         | (Err e, w1) \<Rightarrow> (Ok (), s1, w1)
         | (Ok _, w1) \<Rightarrow>
             (case updater_Update env u w1 of
                (Panic x, w2) \<Rightarrow> (Panic x, s1, w2)
              | (_, w2) \<Rightarrow> (Ok (), s1\<lparr>firmwareUpdateSuccess := firmwareUpdateSuccess s1 + 1\<rparr>, w2)))"

definition on_trigger :: "('f, 'u, 'w) check_env \<Rightarrow> ('f, 'u) checker \<Rightarrow> 'w \<Rightarrow> unit res \<times> ('f, 'u) checker \<times> 'w" where
  "on_trigger env s w =
     (case (updateFetcher s, updateClient s) of
        (Some f, Some u) \<Rightarrow> scan_update env f u s w
      | _ \<Rightarrow>
          (case new_updater env w of
             (Panic x, w1) \<Rightarrow> (Panic x, s, w1)
           | (Err e, w1) \<Rightarrow> (Ok (), s\<lparr>updateFetcher := None, updateClient := None\<rparr>, w1)
           | (Ok (f, u), w1) \<Rightarrow> scan_update env f u (s\<lparr>updateFetcher := Some f, updateClient := Some u\<rparr>) w1))"

inductive check_step :: "('f, 'u, 'w) check_env \<Rightarrow> ('f, 'u) checker \<times> 'w \<Rightarrow> ('f, 'u) checker \<times> 'w \<Rightarrow> bool"
  for env where
  cs_cancel: "worker s \<noteq> WorkCrash \<Longrightarrow> check_step env (s, w) (s\<lparr>ctxDone := True\<rparr>, w)"
| cs_tick: "worker s \<noteq> WorkCrash \<Longrightarrow> ticker s = TickSelect \<Longrightarrow> check_step env (s, w) (s\<lparr>ticker := TickSend\<rparr>, w)"
| cs_send: "worker s \<noteq> WorkCrash \<Longrightarrow> ticker s = TickSend \<Longrightarrow> \<not> triggerClosed s \<Longrightarrow> trigger s < triggerCap \<Longrightarrow>
    check_step env (s, w) (s\<lparr>trigger := trigger s + 1, ticker := TickSelect\<rparr>, w)"
| cs_close: "worker s \<noteq> WorkCrash \<Longrightarrow> ticker s = TickSelect \<Longrightarrow> ctxDone s \<Longrightarrow>
    check_step env (s, w) (s\<lparr>triggerClosed := True, ticker := TickEnd\<rparr>, w)"
| cs_handler: "worker s \<noteq> WorkCrash \<Longrightarrow> \<not> triggerClosed s \<Longrightarrow> trigger s < triggerCap \<Longrightarrow>
    check_step env (s, w) (s\<lparr>trigger := trigger s + 1\<rparr>, w)"
| cs_handler_closed: "worker s \<noteq> WorkCrash \<Longrightarrow> triggerClosed s \<Longrightarrow>
    check_step env (s, w) (s\<lparr>handlerPanics := handlerPanics s + 1\<rparr>, w)"
| cs_recv: "worker s = WorkSelect \<Longrightarrow> 0 < trigger s \<Longrightarrow>
    check_step env (s, w) (s\<lparr>trigger := trigger s - 1, worker := WorkRun\<rparr>, w)"
| cs_recv_closed: "worker s = WorkSelect \<Longrightarrow> trigger s = 0 \<Longrightarrow> triggerClosed s \<Longrightarrow>
    check_step env (s, w) (s\<lparr>worker := WorkEnd\<rparr>, w)"
| cs_done: "worker s = WorkSelect \<Longrightarrow> ctxDone s \<Longrightarrow> check_step env (s, w) (s\<lparr>worker := WorkEnd\<rparr>, w)"
| cs_work: "worker s = WorkRun \<Longrightarrow> on_trigger env s w = (Ok (), s', w') \<Longrightarrow>
    check_step env (s, w) (s'\<lparr>worker := WorkSelect\<rparr>, w')"
| cs_crash: "worker s = WorkRun \<Longrightarrow> on_trigger env s w = (Panic x, s', w') \<Longrightarrow>
    check_step env (s, w) (s'\<lparr>worker := WorkCrash\<rparr>, w')"

inductive_cases check_stepE: "check_step env (s, w) (s', w')"

abbreviation check_reach :: "('f, 'u, 'w) check_env \<Rightarrow> ('f, 'u) checker \<times> 'w \<Rightarrow> ('f, 'u) checker \<times> 'w \<Rightarrow> bool" where
  "check_reach env \<equiv> (check_step env)\<^sup>*\<^sup>*"


section \<open>The invariant\<close>

definition check_inv :: "('f, 'u) checker \<Rightarrow> bool" where
  "check_inv s \<longleftrightarrow> trigger s \<le> triggerCap \<and> (triggerClosed s \<longleftrightarrow> ticker s = TickEnd) \<and>
     (ticker s = TickEnd \<longrightarrow> ctxDone s) \<and> (0 < handlerPanics s \<longrightarrow> triggerClosed s) \<and> firmwareUpdateSuccess s \<le> firmwareUpdateAttempt s \<and>
     (updateFetcher s = None \<longleftrightarrow> updateClient s = None) \<and>
     (0 < firmwareUpdateAttempt s \<longrightarrow> updateFetcher s \<noteq> None)"

lemma scan_update_frame:
  assumes "scan_update env f u s w = (r, s', w')"
  shows "(\<exists>k \<le> 1. s' = s\<lparr>firmwareUpdateAttempt := firmwareUpdateAttempt s + 1,
    firmwareUpdateSuccess := firmwareUpdateSuccess s + k\<rparr>) \<and> (\<forall>e. r \<noteq> Err e)"
  using assms
  by (auto simp: scan_update_def Let_def split: res.splits prod.splits)

lemma on_trigger_frame:
  assumes "on_trigger env s w = (r, s', w')" "check_inv s"
  shows "check_inv s' \<and> trigger s' = trigger s \<and> ticker s' = ticker s \<and> triggerClosed s' = triggerClosed s \<and>
    ctxDone s' = ctxDone s \<and> (\<forall>e. r \<noteq> Err e) \<and> firmwareUpdateAttempt s \<le> firmwareUpdateAttempt s'"
  using assms
  by (auto simp: on_trigger_def check_inv_def dest!: scan_update_frame split: option.splits res.splits prod.splits)

lemma check_step_inv: "check_step env (s, w) (s', w') \<Longrightarrow> check_inv s \<Longrightarrow> check_inv s'"
  by (erule check_stepE) (auto simp: check_inv_def triggerCap_def dest: on_trigger_frame)

lemma check_init_inv: "check_inv updateChecker"
  by (simp add: check_inv_def updateChecker_def)

lemma check_reach_inv: "check_reach env x y \<Longrightarrow> check_inv (fst x) \<Longrightarrow> check_inv (fst y)"
proof (induction rule: rtranclp_induct)
  case (step y z)
  then show ?case using check_step_inv by (cases y; cases z) auto
qed

text \<open>
  A stuck ticker: the worker has ended and the channel is full, so the send of the ticker never completes.
\<close>

definition check_stuck :: "('f, 'u) checker \<Rightarrow> bool" where
  "check_stuck s \<longleftrightarrow> worker s = WorkEnd \<and> ticker s = TickSend \<and> trigger s = triggerCap \<and> \<not> triggerClosed s"

lemma check_stuck_step: "check_step env (s, w) (s', w') \<Longrightarrow> check_stuck s \<Longrightarrow> check_stuck s'"
  by (erule check_stepE) (auto simp: check_stuck_def)

lemma check_stuck_reach: "check_reach env x y \<Longrightarrow> check_stuck (fst x) \<Longrightarrow> check_stuck (fst y)"
proof (induction rule: rtranclp_induct)
  case (step y z)
  then show ?case using check_stuck_step by (cases y; cases z) auto
qed


section \<open>Properties\<close>

text \<open>
  C24. In every interleaving: at most one trigger waits, the ticker never sends on the closed channel, the channel
  is closed only after the context is done, and only then can a request to \<open>/updatecheck\<close> panic; successes never
  outnumber attempts, and an attempt has been counted only if the updater exists.
\<close>

theorem checker_invariant:
  assumes "check_reach env (updateChecker, w0) (s, w)"
  shows "trigger s \<le> 1 \<and> (ticker s = TickSend \<longrightarrow> \<not> triggerClosed s) \<and> (triggerClosed s \<longrightarrow> ctxDone s) \<and>
    (0 < handlerPanics s \<longrightarrow> ctxDone s) \<and> firmwareUpdateSuccess s \<le> firmwareUpdateAttempt s \<and>
    (0 < firmwareUpdateAttempt s \<longrightarrow> updateFetcher s \<noteq> None \<and> updateClient s \<noteq> None)"
  using check_reach_inv [OF assms] check_init_inv by (auto simp: check_inv_def triggerCap_def)

text \<open>An environment for the witnesses: an updater that finds nothing, and one that fails to install.\<close>

definition demo_check :: "unit res \<Rightarrow> (unit, unit, unit) check_env" where
  "demo_check r = \<lparr>new_updater = (\<lambda>w. (Ok ((), ()), w)), fetcher_Scan = (\<lambda>f w. (Ok (), w)), updater_Update = (\<lambda>u w. (r, w))\<rparr>"

lemma demo_run: "check_reach (demo_check (Err e)) (updateChecker, ())
  (updateChecker\<lparr>updateFetcher := Some (), updateClient := Some (), firmwareUpdateAttempt := 1, firmwareUpdateSuccess := 1\<rparr>, ())"
proof -
  let ?s1 = "updateChecker\<lparr>trigger := 1\<rparr> :: (unit, unit) checker" and ?env = "demo_check (Err e)"
  have "check_step ?env (updateChecker, ()) (?s1, ())"
    using cs_handler [of updateChecker ?env "()"] by (simp add: updateChecker_def triggerCap_def)
  moreover have "check_step ?env (?s1, ()) (updateChecker\<lparr>worker := WorkRun\<rparr>, ())"
    using cs_recv [of ?s1 ?env "()"] by (simp add: updateChecker_def)
  moreover have "check_step ?env (updateChecker\<lparr>worker := WorkRun\<rparr>, ())
      (updateChecker\<lparr>updateFetcher := Some (), updateClient := Some (), firmwareUpdateAttempt := 1, firmwareUpdateSuccess := 1\<rparr>, ())"
    using cs_work [of "updateChecker\<lparr>worker := WorkRun\<rparr>" ?env "()"]
    by (simp add: updateChecker_def on_trigger_def scan_update_def demo_check_def)
  ultimately show ?thesis by (meson converse_rtranclp_into_rtranclp rtranclp.rtrancl_refl)
qed

theorem checker_invariant_witness:
  "\<exists>s. check_reach (demo_check (Err (Sentinel ''install''))) (updateChecker, ()) (s, ()) \<and>
    firmwareUpdateAttempt s = 1 \<and> updateFetcher s = Some () \<and> firmwareUpdateSuccess s \<le> 1"
  using checker_invariant [OF demo_run [of "Sentinel ''install''"]] demo_run [of "Sentinel ''install''"]
  by (intro exI conjI) (assumption, simp_all)

text \<open>
  A failed installation is counted as a success: when the scan succeeds and \<open>Update\<close> returns an error, the
  worker adds one to \<open>firmware_update_success\<close>.
\<close>

lemma failed_update_counts:
  assumes "updateFetcher s = Some f" "updateClient s = Some u" "fetcher_Scan env f w = (Ok (), w1)"
    and "updater_Update env u w1 = (Err e, w2)"
  shows "\<exists>s'. on_trigger env s w = (Ok (), s', w2) \<and> firmwareUpdateSuccess s' = firmwareUpdateSuccess s + 1"
  using assms by (auto simp: on_trigger_def scan_update_def Let_def)

text \<open>A request that is served after the channel is closed panics.\<close>

lemma handler_can_panic:
  "\<exists>s. check_reach env (updateChecker, w) (s, w) \<and> 0 < handlerPanics s"
proof -
  let ?s1 = "updateChecker\<lparr>ctxDone := True\<rparr>" and ?s2 = "updateChecker\<lparr>ctxDone := True, triggerClosed := True, ticker := TickEnd\<rparr>"
  have "check_step env (updateChecker, w) (?s1, w)"
    using cs_cancel [of updateChecker env w] by (simp add: updateChecker_def)
  moreover have "check_step env (?s1, w) (?s2, w)"
    using cs_close [of ?s1 env w] by (simp add: updateChecker_def)
  moreover have "check_step env (?s2, w) (?s2\<lparr>handlerPanics := 1\<rparr>, w)"
    using cs_handler_closed [of ?s2 env w] by (simp add: updateChecker_def)
  ultimately have "check_reach env (updateChecker, w) (?s2\<lparr>handlerPanics := 1\<rparr>, w)"
    by (meson converse_rtranclp_into_rtranclp rtranclp.rtrancl_refl)
  then show ?thesis by (intro exI conjI) (assumption, simp)
qed

text \<open>
  C39. The ticker can be left behind. After the context is done the worker may end while the ticker waits to send on
  the full channel; then the ticker never ends and never closes the channel, whatever happens next.
\<close>

theorem ticker_can_leak:
  "\<exists>s. check_reach env (updateChecker, w) (s, w) \<and> ctxDone s \<and> worker s = WorkEnd \<and>
    (\<forall>s' w'. check_reach env (s, w) (s', w') \<longrightarrow> ticker s' = TickSend \<and> \<not> triggerClosed s')"
proof -
  let ?s1 = "updateChecker\<lparr>ticker := TickSend\<rparr>" and ?s2 = "updateChecker\<lparr>ticker := TickSend, trigger := 1\<rparr>"
    and ?s3 = "updateChecker\<lparr>ticker := TickSend, trigger := 1, ctxDone := True\<rparr>"
    and ?s4 = "updateChecker\<lparr>ticker := TickSend, trigger := 1, ctxDone := True, worker := WorkEnd\<rparr>"
  have "check_step env (updateChecker, w) (?s1, w)"
    using cs_tick [of updateChecker env w] by (simp add: updateChecker_def)
  moreover have "check_step env (?s1, w) (?s2, w)"
    using cs_handler [of ?s1 env w] by (simp add: updateChecker_def triggerCap_def)
  moreover have "check_step env (?s2, w) (?s3, w)"
    using cs_cancel [of ?s2 env w] by (simp add: updateChecker_def)
  moreover have "check_step env (?s3, w) (?s4, w)"
    using cs_done [of ?s3 env w] by (simp add: updateChecker_def)
  ultimately have "check_reach env (updateChecker, w) (?s4, w)"
    by (meson converse_rtranclp_into_rtranclp rtranclp.rtrancl_refl)
  moreover have "check_stuck ?s4" by (simp add: check_stuck_def updateChecker_def triggerCap_def)
  ultimately show ?thesis using check_stuck_reach [of env "(?s4, w)"]
    by (intro exI [of _ ?s4]) (auto simp: check_stuck_def updateChecker_def)
qed

theorem ticker_can_leak_witness:
  "\<exists>s. check_reach (demo_check (Ok ())) (updateChecker, ()) (s, ()) \<and> ctxDone s \<and> worker s = WorkEnd \<and> ticker s = TickSend"
  using ticker_can_leak [of "demo_check (Ok ())" "()"] by blast

end
