(* ===== verification/Lease.thy ===== *)
theory Lease
  imports Prelude
begin

text \<open>
  The lease handler of \<open>net.go\<close>: \<open>runDHCP\<close> with its callback \<open>acquired\<close>, which starts and stops the function
  \<open>f\<close> (the witness) with the lease, and \<open>configureNetFromDHCP\<close>.

  The DHCP client calls \<open>acquired\<close> one call at a time, with the new address of one call as the old
  address of the next; when the context of \<open>runDHCP\<close> is done it gives up its address with a last call and
  \<open>Run\<close> returns. A step relation interleaves these calls with the goroutines that run \<open>f\<close> and with the end of
  that context; a call has one point where it waits, the receive from \<open>fDone\<close>. \<open>f\<close> returns
  \<open>context.Canceled\<close> only when its context is cancelled, and any other return starts it again, so a goroutine ends
  only after its context is cancelled. Whether the network stack adds and removes an address without an error are
  the parameters \<open>addOK\<close> and \<open>remOK\<close>, the text of an address is \<open>addr_String\<close>.
\<close>

section \<open>The network configuration\<close>

type_synonym address = bytes

record AddressWithPrefix =
  Address :: address
  PrefixLen :: nat

record Config =
  DNS :: "address list"
  Router :: "address list"

datatype destination = Subnet AddressWithPrefix | IPv4EmptySubnet

record Route =
  Destination :: destination
  Gateway :: "address option"

record net_conf =
  defaultNS :: "string list"
  routeTable :: "Route list"

definition Unspecified :: "address \<Rightarrow> bool" where
  "Unspecified a \<longleftrightarrow> list_all (\<lambda>b. b = 0) a"

definition configureNetFromDHCP :: "(address \<Rightarrow> string) \<Rightarrow> AddressWithPrefix \<Rightarrow> Config \<Rightarrow> net_conf \<Rightarrow> net_conf" where
  "configureNetFromDHCP addr_String newAddr cfg nc =
     (let nc1 = (if DNS cfg \<noteq> [] then nc\<lparr>defaultNS := map (\<lambda>r. addr_String r @ '':53'') (DNS cfg)\<rparr> else nc);
          table = \<lparr>Destination = Subnet newAddr, Gateway = None\<rparr> #
            map (\<lambda>gw. \<lparr>Destination = IPv4EmptySubnet, Gateway = Some gw\<rparr>) (Router cfg)
      in nc1\<lparr>routeTable := table\<rparr>)"


section \<open>The lease handler\<close>

datatype acquired_pc = AcqIdle | AcqWait AddressWithPrefix Config | AcqPanic | AcqReturned

record child =
  child_ctx :: nat
  child_cancelled :: bool

record dhcp_run =
  oldAddr :: AddressWithPrefix
  pc :: acquired_pc
  cancelChild :: "nat option"
  fDone :: nat
  children :: "child list"
  nextCtx :: nat
  parentDone :: bool
  addresses :: "AddressWithPrefix list"
  conf :: net_conf

definition noAddr :: AddressWithPrefix where
  "noAddr = \<lparr>Address = [], PrefixLen = 0\<rparr>"

definition runDHCP :: "net_conf \<Rightarrow> dhcp_run" where
  "runDHCP nc = \<lparr>oldAddr = noAddr, pc = AcqIdle, cancelChild = None, fDone = 0, children = [], nextCtx = 0,
     parentDone = False, addresses = [], conf = nc\<rparr>"

definition fDoneCap :: nat where
  "fDoneCap = 1"

text \<open>
  The last part of \<open>acquired\<close>: a new address is added to the stack and \<open>f\<close> is started, with a context that is
  cancelled from the start when the context of \<open>runDHCP\<close> is done.
\<close>

definition acquired_new :: "(address \<Rightarrow> string) \<Rightarrow> (AddressWithPrefix \<Rightarrow> bool) \<Rightarrow> AddressWithPrefix \<Rightarrow> Config \<Rightarrow> dhcp_run \<Rightarrow> dhcp_run" where
  "acquired_new addr_String addOK newAddr cfg s =
     (let s1 = s\<lparr>pc := AcqIdle, oldAddr := newAddr\<rparr>
      in if Unspecified (Address newAddr) then s1
         else if \<not> addOK newAddr then s1
         else s1\<lparr>addresses := addresses s @ [newAddr], conf := configureNetFromDHCP addr_String newAddr cfg (conf s),
                 cancelChild := Some (nextCtx s), nextCtx := nextCtx s + 1,
                 children := children s @ [\<lparr>child_ctx = nextCtx s, child_cancelled = parentDone s\<rparr>]\<rparr>)"

text \<open>
  The start of \<open>acquired\<close>, up to its wait: a renewal configures the network again; losing an address cancels
  \<open>f\<close>, which panics on the nil function when \<open>f\<close> was never started.
\<close>

definition acquired :: "(address \<Rightarrow> string) \<Rightarrow> (AddressWithPrefix \<Rightarrow> bool) \<Rightarrow> AddressWithPrefix \<Rightarrow> Config \<Rightarrow> dhcp_run \<Rightarrow> dhcp_run" where
  "acquired addr_String addOK newAddr cfg s =
     (if Address (oldAddr s) = Address newAddr \<and> PrefixLen (oldAddr s) = PrefixLen newAddr
      then s\<lparr>conf := configureNetFromDHCP addr_String newAddr cfg (conf s)\<rparr>
      else if \<not> Unspecified (Address (oldAddr s)) then
        (case cancelChild s of
           None \<Rightarrow> s\<lparr>pc := AcqPanic\<rparr>
         | Some c \<Rightarrow> s\<lparr>pc := AcqWait newAddr cfg,
             children := map (\<lambda>x. if child_ctx x = c then x\<lparr>child_cancelled := True\<rparr> else x) (children s)\<rparr>)
      else acquired_new addr_String addOK newAddr cfg s)"

text \<open>
  After the wait the old address is removed from the stack. An error of the removal is only logged: the address
  then stays.
\<close>

definition acquired_resume :: "(address \<Rightarrow> string) \<Rightarrow> (AddressWithPrefix \<Rightarrow> bool) \<Rightarrow> (AddressWithPrefix \<Rightarrow> bool) \<Rightarrow>
    AddressWithPrefix \<Rightarrow> Config \<Rightarrow> dhcp_run \<Rightarrow> dhcp_run" where
  "acquired_resume addr_String addOK remOK newAddr cfg s =
     acquired_new addr_String addOK newAddr cfg
       (s\<lparr>fDone := fDone s - 1,
          addresses := (if remOK (oldAddr s) then filter (\<lambda>a. Address a \<noteq> Address (oldAddr s)) (addresses s)
                        else addresses s)\<rparr>)"

text \<open>
  The steps: a call of \<open>acquired\<close> and its continuation; the end of a goroutine, whose signal goes to \<open>fDone\<close> and
  would panic on a closed channel; the end of the context of \<open>runDHCP\<close>, which cancels every child; and the
  return of \<open>Run\<close> without an address, after which \<open>fDone\<close> is closed.
\<close>

inductive lease_step :: "(address \<Rightarrow> string) \<Rightarrow> (AddressWithPrefix \<Rightarrow> bool) \<Rightarrow> (AddressWithPrefix \<Rightarrow> bool) \<Rightarrow>
    dhcp_run \<Rightarrow> dhcp_run \<Rightarrow> bool"
  for addr_String addOK remOK where
  ls_acquired: "pc s = AcqIdle \<Longrightarrow> lease_step addr_String addOK remOK s (acquired addr_String addOK newAddr cfg s)"
| ls_resume: "pc s = AcqWait newAddr cfg \<Longrightarrow> 0 < fDone s \<Longrightarrow>
    lease_step addr_String addOK remOK s (acquired_resume addr_String addOK remOK newAddr cfg s)"
| ls_child_end: "pc s \<noteq> AcqPanic \<Longrightarrow> pc s \<noteq> AcqReturned \<Longrightarrow> x \<in> set (children s) \<Longrightarrow> child_cancelled x \<Longrightarrow>
    fDone s < fDoneCap \<Longrightarrow>
    lease_step addr_String addOK remOK s (s\<lparr>children := remove1 x (children s), fDone := fDone s + 1\<rparr>)"
| ls_child_closed: "pc s = AcqReturned \<Longrightarrow> x \<in> set (children s) \<Longrightarrow> child_cancelled x \<Longrightarrow>
    lease_step addr_String addOK remOK s (s\<lparr>pc := AcqPanic\<rparr>)"
| ls_parent: "pc s \<noteq> AcqPanic \<Longrightarrow> \<not> parentDone s \<Longrightarrow> lease_step addr_String addOK remOK s
    (s\<lparr>parentDone := True, children := map (\<lambda>x. x\<lparr>child_cancelled := True\<rparr>) (children s)\<rparr>)"
| ls_return: "pc s = AcqIdle \<Longrightarrow> parentDone s \<Longrightarrow> oldAddr s = noAddr \<Longrightarrow>
    lease_step addr_String addOK remOK s (s\<lparr>pc := AcqReturned\<rparr>)"

inductive_cases lease_stepE: "lease_step addr_String addOK remOK s s'"

abbreviation lease_reach :: "(address \<Rightarrow> string) \<Rightarrow> (AddressWithPrefix \<Rightarrow> bool) \<Rightarrow> (AddressWithPrefix \<Rightarrow> bool) \<Rightarrow>
    dhcp_run \<Rightarrow> dhcp_run \<Rightarrow> bool" where
  "lease_reach addr_String addOK remOK \<equiv> (lease_step addr_String addOK remOK)\<^sup>*\<^sup>*"


section \<open>The invariant\<close>


definition waits :: "dhcp_run \<Rightarrow> bool" where
  "waits s \<longleftrightarrow> (\<exists>newAddr cfg. pc s = AcqWait newAddr cfg)"











lemma lease_reach1: "lease_step addr_String addOK remOK s s' \<Longrightarrow> lease_reach addr_String addOK remOK s s'"
  by (rule r_into_rtranclp)


section \<open>Properties\<close>


definition demo_addr :: "byte \<Rightarrow> AddressWithPrefix" where
  "demo_addr b = \<lparr>Address = [10, 0, 0, b], PrefixLen = 24\<rparr>"

definition demo_conf :: net_conf where
  "demo_conf = \<lparr>defaultNS = [''8.8.8.8:53''], routeTable = []\<rparr>"

definition demo_dhcp :: Config where
  "demo_dhcp = \<lparr>DNS = [], Router = []\<rparr>"













text \<open>
  C38. When the stack refuses the first leased address, the end of that lease makes the handler panic: \<open>f\<close> was not
  started, and the cancel function it calls is nil.
\<close>

theorem lease_refused_panics:
  assumes "\<not> Unspecified (Address a)" "\<not> addOK a"
  shows "\<exists>s. lease_reach addr_String addOK remOK (runDHCP nc) s \<and> pc s = AcqPanic"
proof -
  let ?A = "\<lambda>n. acquired addr_String addOK n \<lparr>DNS = [], Router = []\<rparr>"
  have e: "Address a \<noteq> []" using assms(1) by (auto simp: Unspecified_def)
  have s1: "?A a (runDHCP nc) = (runDHCP nc)\<lparr>oldAddr := a\<rparr>"
    using assms e by (simp add: acquired_def runDHCP_def noAddr_def acquired_new_def Unspecified_def)
  have "lease_step addr_String addOK remOK (runDHCP nc) (?A a (runDHCP nc))"
    by (rule lease_step.ls_acquired) (simp add: runDHCP_def)
  moreover have "lease_step addr_String addOK remOK (?A a (runDHCP nc)) (?A noAddr (?A a (runDHCP nc)))"
    unfolding s1 by (rule lease_step.ls_acquired) (simp add: runDHCP_def)
  moreover have "pc (?A noAddr (?A a (runDHCP nc))) = AcqPanic"
    unfolding s1 using assms e by (simp add: acquired_def runDHCP_def noAddr_def)
  ultimately show ?thesis by (meson rtranclp.rtrancl_into_rtrancl r_into_rtranclp)
qed

theorem lease_refused_panics_witness:
  "\<exists>s. lease_reach (\<lambda>a. []) (\<lambda>a. False) (\<lambda>a. True) (runDHCP demo_conf) s \<and> pc s = AcqPanic"
  by (rule lease_refused_panics [of "demo_addr 2"]) (simp_all add: demo_addr_def Unspecified_def)

text \<open>
  A later address that the stack refuses makes the handler wait for ever at the end of that lease: the call of the
  old cancel function has no effect, and no goroutine is left that could signal.
\<close>

definition lease_stuck :: "dhcp_run \<Rightarrow> bool" where
  "lease_stuck s \<longleftrightarrow> waits s \<and> children s = [] \<and> fDone s = 0"

lemma lease_stuck_reach: "lease_reach addr_String addOK remOK s s' \<Longrightarrow> lease_stuck s \<Longrightarrow> lease_stuck s'"
proof (induction rule: rtranclp_induct)
  case (step y z)
  then have "lease_stuck y" by simp
  with step.hyps(2) show ?case by (auto elim!: lease_stepE simp: lease_stuck_def waits_def)
qed

definition demo_accepts :: "AddressWithPrefix \<Rightarrow> bool" where
  "demo_accepts a \<longleftrightarrow> Address a = [10, 0, 0, 2]"

lemma lease_refused_blocks:
  "\<exists>s. lease_reach str demo_accepts remOK (runDHCP demo_conf) s \<and>
    (\<forall>s'. lease_reach str demo_accepts remOK s s' \<longrightarrow> waits s')"
proof -
  let ?A = "\<lambda>n. acquired str demo_accepts n demo_dhcp"
  define s1 where "s1 = ?A (demo_addr 2) (runDHCP demo_conf)"
  define s2 where "s2 = ?A (demo_addr 3) s1"
  define s3 where "s3 = s2\<lparr>children := remove1 \<lparr>child_ctx = 0, child_cancelled = True\<rparr> (children s2), fDone := fDone s2 + 1\<rparr>"
  define s4 where "s4 = acquired_resume str demo_accepts remOK (demo_addr 3) demo_dhcp s3"
  have 1: "pc s1 = AcqIdle" "oldAddr s1 = demo_addr 2" "cancelChild s1 = Some 0" "fDone s1 = 0"
    "children s1 = [\<lparr>child_ctx = 0, child_cancelled = False\<rparr>]"
    by (simp_all add: s1_def acquired_def runDHCP_def noAddr_def Unspecified_def demo_addr_def acquired_new_def demo_accepts_def)
  have 2: "pc s2 = AcqWait (demo_addr 3) demo_dhcp" "cancelChild s2 = Some 0" "fDone s2 = 0"
    "children s2 = [\<lparr>child_ctx = 0, child_cancelled = True\<rparr>]"
    using 1 by (simp_all add: s2_def acquired_def) (simp_all add: demo_addr_def Unspecified_def)
  have 4: "pc s4 = AcqIdle" "oldAddr s4 = demo_addr 3" "cancelChild s4 = Some 0" "fDone s4 = 0" "children s4 = []"
    using 2 by (simp_all add: s4_def s3_def acquired_resume_def acquired_new_def demo_accepts_def demo_addr_def Unspecified_def)
  have "lease_step str demo_accepts remOK (runDHCP demo_conf) s1"
    unfolding s1_def by (rule lease_step.ls_acquired) (simp add: runDHCP_def)
  moreover have "lease_step str demo_accepts remOK s1 s2" unfolding s2_def by (rule lease_step.ls_acquired) (rule 1)
  moreover have "lease_step str demo_accepts remOK s2 s3"
    unfolding s3_def using 2 by (intro lease_step.ls_child_end) (simp_all add: fDoneCap_def)
  moreover have "lease_step str demo_accepts remOK s3 s4"
    unfolding s4_def using 2 by (intro lease_step.ls_resume) (simp_all add: s3_def)
  moreover have "lease_step str demo_accepts remOK s4 (?A noAddr s4)" by (rule lease_step.ls_acquired) (rule 4)
  ultimately have "lease_reach str demo_accepts remOK (runDHCP demo_conf) (?A noAddr s4)"
    by (meson rtranclp.rtrancl_into_rtrancl r_into_rtranclp)
  moreover have "lease_stuck (?A noAddr s4)"
    using 4 by (simp add: lease_stuck_def waits_def acquired_def noAddr_def demo_addr_def Unspecified_def)
  ultimately show ?thesis using lease_stuck_reach lease_stuck_def by blast
qed

end
