(* ===== verification/Fmt.thy ===== *)
theory Fmt
  imports Prelude
begin

text \<open>
  The formatting of numbers and byte strings that the applet uses: \<open>%d\<close> of an unsigned number and
  \<open>%02x\<close> of a byte, with their inverses.
\<close>

definition digit :: "nat \<Rightarrow> char" where
  "digit n = (if n < 10 then char_of (48 + n) else char_of (87 + n))"

fun dec :: "nat \<Rightarrow> string" where
  "dec n = (if n < 10 then [digit n] else dec (n div 10) @ [digit (n mod 10)])"

declare dec.simps [simp del]

definition hex2 :: "byte \<Rightarrow> string" where
  "hex2 b = [digit (unat b div 16), digit (unat b mod 16)]"

definition hex_of :: "bytes \<Rightarrow> string" where
  "hex_of bs = concat (map hex2 bs)"

text \<open>Reading them back.\<close>

definition digit_val :: "char \<Rightarrow> nat" where
  "digit_val c = (if (of_char c :: nat) < 58 then of_char c - 48 else of_char c - 87)"

definition undec :: "string \<Rightarrow> nat" where
  "undec s = foldl (\<lambda>a c. 10 * a + digit_val c) 0 s"

lemma of_digit [simp]: "n < 16 \<Longrightarrow> (of_char (digit n) :: nat) = (if n < 10 then 48 + n else 87 + n)"
  by (simp add: digit_def)

lemma digit_val_digit [simp]: "n < 16 \<Longrightarrow> digit_val (digit n) = n"
  by (simp add: digit_val_def)

lemma undec_dec [simp]: "undec (dec n) = n"
proof (induction n rule: dec.induct)
  case (1 n)
  then show ?case by (subst dec.simps) (simp add: undec_def)
qed

lemma dec_inject [simp]: "dec m = dec n \<longleftrightarrow> m = n"
  using undec_dec by metis

lemma dec_not_Nil [simp]: "dec n \<noteq> []"
  by (subst dec.simps) simp

lemma dec_digits: "c \<in> set (dec n) \<Longrightarrow> 48 \<le> (of_char c :: nat) \<and> (of_char c :: nat) \<le> 57"
proof (induction n rule: dec.induct)
  case (1 n)
  have "c \<in> set (dec (n div 10)) \<or> c = digit (n mod 10)" if "\<not> n < 10" using "1.prems" that by (subst (asm) dec.simps) auto
  moreover have "c = digit n" if "n < 10" using "1.prems" that by (subst (asm) dec.simps) auto
  ultimately show ?case using "1.IH" by (cases "n < 10") auto
qed

lemma length_hex2 [simp]: "length (hex2 b) = 2"
  by (simp add: hex2_def)

lemma unat_byte: "unat (b :: byte) < 256"
  using unsigned_less [of b] by simp

lemma hex2_inject [simp]: "hex2 a = hex2 b \<longleftrightarrow> a = b"
proof
  assume "hex2 a = hex2 b"
  then have "digit_val (digit (unat a div 16)) = digit_val (digit (unat b div 16))"
    "digit_val (digit (unat a mod 16)) = digit_val (digit (unat b mod 16))" by (simp_all add: hex2_def)
  then have "unat a div 16 = unat b div 16" "unat a mod 16 = unat b mod 16"
    using unat_byte [of a] unat_byte [of b] by simp_all
  then have "unat a = unat b" by (metis mult_div_mod_eq)
  then show "a = b" by (simp only: word_unat_eq_iff)
qed simp

lemma hex_of_inject: "length xs = length ys \<Longrightarrow> hex_of xs = hex_of ys \<longleftrightarrow> xs = ys"
  by (induction xs ys rule: list_induct2) (auto simp: hex_of_def hex2_def simp flip: hex2_inject)

lemma length_hex_of [simp]: "length (hex_of bs) = 2 * length bs"
  by (induction bs) (simp_all add: hex_of_def)

end
