(* ===== verification/Keys.thy ===== *)
theory Keys
  imports Sha256 Fmt
begin

text \<open>
  The identities of a witness, \<open>key.go\<close>: the keys that are derived from the device's secret at every boot and
  the attestations that bind them to the device.

  The trusted OS (\<open>RPC.Status\<close>, \<open>RPC.DeriveKey\<close>), HKDF, the note and Ed25519 key generators, the note signer
  and the name generator are parameters, in the record \<open>key_env\<close>. A reader of HKDF output is a value of
  type \<open>'r\<close> that a read returns advanced. \<open>log.Fatalf\<close> is the panic \<open>Exit\<close>.
\<close>

section \<open>The operations\<close>

record Status =
  Serial :: string
  HAB :: bool
  IdentityCounter :: "32 word"

record ('r, 's) key_env =
  rpc_Status :: "Status res"
  rpc_DeriveKey :: "bytes \<Rightarrow> bytes res"
  hkdf_New :: "bytes \<Rightarrow> bytes \<Rightarrow> 'r"
  rnd_Read :: "'r \<Rightarrow> nat \<Rightarrow> bytes res \<times> 'r"
  note_GenerateKey :: "'r \<Rightarrow> string \<Rightarrow> (string \<times> string) res"
  ed25519_GenerateKey :: "'r \<Rightarrow> (bytes \<times> bytes) res"
  namegenerator_Generate :: "64 word \<Rightarrow> string"
  note_NewSigner :: "string \<Rightarrow> 's res"
  note_Sign :: "string \<Rightarrow> 's \<Rightarrow> string res"

record key_vars =
  attestSigningKey :: string
  attestPublicKey :: string
  witnessPublicKey :: string
  witnessSigningKey :: string
  witnessPublicKeyAttestation :: string
  bastionSigningKey :: bytes
  bastionIDAttestation :: string

definition aes_BlockSize :: nat where
  "aes_BlockSize = 16"

definition deriveHKDF :: "('r, 's) key_env \<Rightarrow> string \<Rightarrow> string \<Rightarrow> 'r res" where
  "deriveHKDF env diversifier uniqueID =
     (let diversifierHash = Sum256 (string_bytes diversifier)
      in case rpc_DeriveKey env (take aes_BlockSize diversifierHash) of
           Err e \<Rightarrow> Panic (Exit ''Failed to derive h/w key, %v'')
         | Panic x \<Rightarrow> Panic x
         | Ok aesKey \<Rightarrow> Ok (hkdf_New env aesKey (string_bytes uniqueID)))"

definition randomName :: "('r, 's) key_env \<Rightarrow> 'r \<Rightarrow> string res \<times> 'r" where
  "randomName env rnd =
     (case rnd_Read env rnd 8 of
        (Err e, rnd') \<Rightarrow> (Panic (Exit ''Failed to read name entropy: %v''), rnd')
      | (Panic x, rnd') \<Rightarrow> (Panic x, rnd')
      | (Ok b, rnd') \<Rightarrow>
          (let nSeed = gocopy (replicate 8 0) b
           in (Ok (namegenerator_Generate env (be_get (rev nSeed))), rnd')))"

definition deriveEd25519 :: "('r, 's) key_env \<Rightarrow> string \<Rightarrow> string \<Rightarrow> (bytes \<times> bytes) res" where
  "deriveEd25519 env diversifier uniqueID =
     (case deriveHKDF env diversifier uniqueID of
        Err e \<Rightarrow> Err e
      | Panic x \<Rightarrow> Panic x
      | Ok r \<Rightarrow>
          (case ed25519_GenerateKey env r of
             Err e \<Rightarrow> Panic (Exit ''Failed to generate derived ed25519 key: %v'')
           | Panic x \<Rightarrow> Panic x
           | Ok (pub, priv) \<Rightarrow> Ok (priv, pub)))"

definition deriveNoteSigner :: "('r, 's) key_env \<Rightarrow> string \<Rightarrow> string \<Rightarrow> ('r \<Rightarrow> string res \<times> 'r) \<Rightarrow>
    (string \<times> string) res" where
  "deriveNoteSigner env diversifier uniqueID keyName =
     (case deriveHKDF env diversifier uniqueID of
        Err e \<Rightarrow> Err e
      | Panic x \<Rightarrow> Panic x
      | Ok r \<Rightarrow>
          (case keyName r of
             (Err e, r') \<Rightarrow> Err e
           | (Panic x, r') \<Rightarrow> Panic x
           | (Ok name, r') \<Rightarrow>
               (case note_GenerateKey env r' name of
                  Err e \<Rightarrow> Panic (Exit ''Failed to generate derived note key: %v'')
                | x \<Rightarrow> x)))"

definition attestNote :: "('r, 's) key_env \<Rightarrow> key_vars \<Rightarrow> string \<Rightarrow> string res" where
  "attestNote env g noteText =
     (case note_NewSigner env (attestSigningKey g) of
        Err e \<Rightarrow> Panic (PanicMsg ''failed to create attestation signer: %v'')
      | Panic x \<Rightarrow> Panic x
      | Ok aSigner \<Rightarrow>
          (case note_Sign env noteText aSigner of
             Err e \<Rightarrow> Panic (PanicMsg ''failed to sign witness ID attestation: %v'')
           | r \<Rightarrow> r))"

definition newline :: string where
  "newline = [CHR 0x0A]"

text \<open>The text of an attestation: a title and three lines.\<close>

definition attestText :: "string \<Rightarrow> string \<Rightarrow> nat \<Rightarrow> string \<Rightarrow> string" where
  "attestText title serial counter key =
     title @ newline @ serial @ newline @ dec counter @ newline @ key @ newline"

definition attestID :: "('r, 's) key_env \<Rightarrow> key_vars \<Rightarrow> Status \<Rightarrow> string \<Rightarrow> string res" where
  "attestID env g status pubkey =
     attestNote env g (attestText ''ArmoredWitness ID attestation v1'' (Serial status)
       (unat (IdentityCounter status)) (witnessPublicKey g))"

definition attestBastion :: "('r, 's) key_env \<Rightarrow> key_vars \<Rightarrow> Status \<Rightarrow> string \<Rightarrow> string res" where
  "attestBastion env g status bastionID =
     attestNote env g (attestText ''ArmoredWitness BastionID attestation v1'' (Serial status) 0 bastionID)"

text \<open>The prefix of all names without secure boot, and the diversifiers of the three keys.\<close>

definition keyPrefix :: "Status \<Rightarrow> string" where
  "keyPrefix status = (if \<not> HAB status then ''DEV:'' else [])"

definition witnessDiversifier :: "Status \<Rightarrow> string" where
  "witnessDiversifier status = keyPrefix status @ ''WitnessKey-id:'' @ dec (unat (IdentityCounter status))"

definition attestDiversifier :: "Status \<Rightarrow> string" where
  "attestDiversifier status = keyPrefix status @ ''ID-Attestation''"

definition bastionDiversifier :: "Status \<Rightarrow> string" where
  "bastionDiversifier status = keyPrefix status @ ''BastionKey-id:0''"

definition witnessName :: "('r, 's) key_env \<Rightarrow> Status \<Rightarrow> 'r \<Rightarrow> string res \<times> 'r" where
  "witnessName env status rnd =
     (case randomName env rnd of
        (Ok n, rnd') \<Rightarrow> (Ok (keyPrefix status @ ''ArmoredWitness-'' @ n), rnd')
      | r \<Rightarrow> r)"

definition attestName :: "Status \<Rightarrow> 'r \<Rightarrow> string res \<times> 'r" where
  "attestName status rnd = (Ok (keyPrefix status @ ''AW-ID-Attestation-'' @ Serial status), rnd)"

definition deriveIdentityKeys :: "('r, 's) key_env \<Rightarrow> key_vars \<Rightarrow> unit res \<times> key_vars" where
  "deriveIdentityKeys env g =
     (case rpc_Status env of
        Err e \<Rightarrow> (Panic (Exit ''Failed to fetch Status: %v''), g)
      | Panic x \<Rightarrow> (Panic x, g)
      | Ok status \<Rightarrow>
     (case deriveNoteSigner env (witnessDiversifier status) (Serial status) (witnessName env status) of
        Err e \<Rightarrow> (Err e, g)
      | Panic x \<Rightarrow> (Panic x, g)
      | Ok (wsec, wpub) \<Rightarrow>
     (let g1 = g\<lparr>witnessSigningKey := wsec, witnessPublicKey := wpub\<rparr>
      in case deriveNoteSigner env (attestDiversifier status) (Serial status) (attestName status) of
        Err e \<Rightarrow> (Err e, g1)
      | Panic x \<Rightarrow> (Panic x, g1)
      | Ok (asec, apub) \<Rightarrow>
     (let g2 = g1\<lparr>attestSigningKey := asec, attestPublicKey := apub\<rparr>
      in case attestID env g2 status (witnessPublicKey g2) of
        Err e \<Rightarrow> (Err e, g2)
      | Panic x \<Rightarrow> (Panic x, g2)
      | Ok idNote \<Rightarrow>
     (let g3 = g2\<lparr>witnessPublicKeyAttestation := idNote\<rparr>
      in case deriveEd25519 env (bastionDiversifier status) (Serial status) of
        Err e \<Rightarrow> (Err e, g3)
      | Panic x \<Rightarrow> (Panic x, g3)
      | Ok (bastionSec, bastionPub) \<Rightarrow>
     (let g4 = g3\<lparr>bastionSigningKey := bastionSec\<rparr>;
          bastionID = hex_of (Sum256 bastionPub)
      in case attestBastion env g4 status bastionID of
        Err e \<Rightarrow> (Err e, g4)
      | Panic x \<Rightarrow> (Panic x, g4)
      | Ok bNote \<Rightarrow> (Ok (), g4\<lparr>bastionIDAttestation := bNote\<rparr>)))))))"


section \<open>Every failure ends the applet\<close>

lemma derive_no_err [simp]:
  "deriveHKDF env d u \<noteq> Err e" "deriveEd25519 env d u \<noteq> Err e" "attestNote env g t \<noteq> Err e"
  "fst (randomName env r) \<noteq> Err e"
  by (auto simp: deriveHKDF_def deriveEd25519_def attestNote_def randomName_def Let_def split: res.splits prod.splits)

lemma note_signer_no_err: "(\<And>r e. fst (k r) \<noteq> Err e) \<Longrightarrow> deriveNoteSigner env d u k \<noteq> Err e"
  by (auto simp: deriveNoteSigner_def split: res.splits prod.splits) (metis fst_conv)

lemma names_no_err [simp]: "fst (witnessName env s r) \<noteq> Err e" "fst (attestName s r) \<noteq> Err e"
  by (auto simp: witnessName_def attestName_def split: res.splits prod.splits) (metis derive_no_err(4) fst_conv)

lemma attestNote_upd [simp]:
  "attestNote env (g\<lparr>witnessPublicKeyAttestation := x\<rparr>) t = attestNote env g t"
  "attestNote env (g\<lparr>bastionSigningKey := y\<rparr>) t = attestNote env g t"
  "attestNote env (g\<lparr>bastionIDAttestation := x\<rparr>) t = attestNote env g t"
  by (simp_all add: attestNote_def)

text \<open>What a successful derivation went through.\<close>

lemma derive_ok:
  assumes "deriveIdentityKeys env g = (Ok (), g')" "rpc_Status env = Ok status"
  shows "deriveNoteSigner env (witnessDiversifier status) (Serial status) (witnessName env status) =
      Ok (witnessSigningKey g', witnessPublicKey g')"
    and "deriveNoteSigner env (attestDiversifier status) (Serial status) (attestName status) =
      Ok (attestSigningKey g', attestPublicKey g')"
    and "attestID env g' status (witnessPublicKey g') = Ok (witnessPublicKeyAttestation g')"
    and "\<exists>pub. deriveEd25519 env (bastionDiversifier status) (Serial status) = Ok (bastionSigningKey g', pub) \<and>
      attestBastion env g' status (hex_of (Sum256 pub)) = Ok (bastionIDAttestation g')"
  using assms
  by (auto simp: deriveIdentityKeys_def Let_def attestID_def attestBastion_def split: res.splits)


section \<open>Properties\<close>

text \<open>
  C18. The attestation key and the bastion key are static for the lifetime of the device: they depend on the
  hardware, the serial number and the secure boot state, and not on the identity counter, which only
  changes the witness key, nor on the keys of an earlier boot.
\<close>

theorem device_keys_static:
  assumes "deriveIdentityKeys (env\<lparr>rpc_Status := Ok s1\<rparr>) g1 = (Ok (), g1')"
    and "deriveIdentityKeys (env\<lparr>rpc_Status := Ok s2\<rparr>) g2 = (Ok (), g2')"
    and "Serial s1 = Serial s2" "HAB s1 = HAB s2"
  shows "attestSigningKey g1' = attestSigningKey g2' \<and> attestPublicKey g1' = attestPublicKey g2' \<and>
    bastionSigningKey g1' = bastionSigningKey g2' \<and> bastionIDAttestation g1' = bastionIDAttestation g2' \<and>
    (IdentityCounter s1 = IdentityCounter s2 \<longrightarrow> witnessSigningKey g1' = witnessSigningKey g2' \<and>
      witnessPublicKeyAttestation g1' = witnessPublicKeyAttestation g2')"
proof -
  let ?e1 = "env\<lparr>rpc_Status := Ok s1\<rparr>" and ?e2 = "env\<lparr>rpc_Status := Ok s2\<rparr>"
  have same: "deriveHKDF ?e1 = deriveHKDF ?e2" by (intro ext) (simp add: deriveHKDF_def split: res.split)
  have ns: "deriveNoteSigner ?e1 = deriveNoteSigner ?e2" by (intro ext) (simp add: deriveNoteSigner_def same split: res.split prod.split)
  have ed: "deriveEd25519 ?e1 = deriveEd25519 ?e2" by (intro ext) (simp add: deriveEd25519_def same split: res.split)
  have pre: "keyPrefix s1 = keyPrefix s2" using assms(4) by (simp add: keyPrefix_def)
  have nm: "attestName s1 = (attestName s2 :: 'a \<Rightarrow> _)" by (intro ext) (simp add: attestName_def pre assms(3))
  have wn: "witnessName ?e1 s1 = witnessName ?e2 s2" by (intro ext) (simp add: witnessName_def randomName_def pre split: res.split prod.split)
  note d1 = derive_ok [OF assms(1), of s1, simplified] and d2 = derive_ok [OF assms(2), of s2, simplified]
  have a: "attestSigningKey g1' = attestSigningKey g2'" "attestPublicKey g1' = attestPublicKey g2'"
    using d1(2) d2(2) by (simp_all add: ns nm assms(3) attestDiversifier_def pre)
  have an: "attestNote ?e1 g1' t = attestNote ?e2 g2' t" for t using a(1) by (simp add: attestNote_def split: res.split)
  have b: "bastionSigningKey g1' = bastionSigningKey g2'" "bastionIDAttestation g1' = bastionIDAttestation g2'"
    using d1(4) d2(4) by (auto simp: ed assms(3) bastionDiversifier_def pre attestBastion_def an)
  have "witnessSigningKey g1' = witnessSigningKey g2' \<and> witnessPublicKeyAttestation g1' = witnessPublicKeyAttestation g2'"
    if "IdentityCounter s1 = IdentityCounter s2"
    using d1(1,3) d2(1,3) that by (auto simp: ns wn assms(3) witnessDiversifier_def pre attestID_def an)
  with a b show ?thesis by blast
qed

text \<open>An environment for the witnesses: a derived key is the request, and signing appends the key.\<close>

definition demo_env :: "Status \<Rightarrow> (bytes, string) key_env" where
  "demo_env s = \<lparr>rpc_Status = Ok s, rpc_DeriveKey = (\<lambda>b. Ok (b @ b)), hkdf_New = (\<lambda>k u. k @ u),
     rnd_Read = (\<lambda>r n. (Ok (take n r), drop n r)),
     note_GenerateKey = (\<lambda>r name. Ok (''PRIVATE+'' @ name @ hex_of r, name @ hex_of r)),
     ed25519_GenerateKey = (\<lambda>r. Ok (r, r)), namegenerator_Generate = (\<lambda>w. dec (unat w)),
     note_NewSigner = Ok, note_Sign = (\<lambda>t k. Ok (t @ k))\<rparr>"

definition demo_status :: "32 word \<Rightarrow> Status" where
  "demo_status c = \<lparr>Serial = ''AW1'', HAB = True, IdentityCounter = c\<rparr>"

lemma demo_env_status: "(demo_env s)\<lparr>rpc_Status := Ok s'\<rparr> = demo_env s'"
  by (simp add: demo_env_def)

lemma demo_keys: "\<exists>g'. deriveIdentityKeys (demo_env s) g = (Ok (), g')"
  by (simp add: deriveIdentityKeys_def demo_env_def deriveNoteSigner_def deriveHKDF_def witnessName_def attestName_def
      randomName_def attestID_def attestBastion_def attestNote_def deriveEd25519_def Let_def)

definition no_keys :: key_vars where
  "no_keys = \<lparr>attestSigningKey = [], attestPublicKey = [], witnessPublicKey = [], witnessSigningKey = [],
     witnessPublicKeyAttestation = [], bastionSigningKey = [], bastionIDAttestation = []\<rparr>"

theorem device_keys_static_witness:
  "\<exists>g g'. deriveIdentityKeys (demo_env (demo_status 1)) no_keys = (Ok (), g) \<and>
    deriveIdentityKeys (demo_env (demo_status 2)) g = (Ok (), g') \<and> attestPublicKey g = attestPublicKey g'"
proof -
  obtain g g' where g: "deriveIdentityKeys (demo_env (demo_status 1)) no_keys = (Ok (), g)"
    "deriveIdentityKeys (demo_env (demo_status 2)) g = (Ok (), g')" using demo_keys by metis
  with device_keys_static [where env = "demo_env (demo_status 0)" and ?s1.0 = "demo_status 1" and ?g1.0 = no_keys
    and ?g1' = g and ?s2.0 = "demo_status 2" and ?g2.0 = g and ?g2' = g']
  show ?thesis by (auto simp: demo_env_status demo_status_def)
qed

text \<open>
  C19. The attestations say what they should: on success the witness identity attestation is the signature, with
  the attestation key that was derived in the same boot, of the serial number, the identity counter and the
  witness public key, and the bastion attestation that of the serial number and the hash of the bastion
  public key.
\<close>

theorem attestations_bind:
  assumes "deriveIdentityKeys env g = (Ok (), g')" "rpc_Status env = Ok status"
  shows "\<exists>signer pub. note_NewSigner env (attestSigningKey g') = Ok signer \<and>
    note_Sign env (attestText ''ArmoredWitness ID attestation v1'' (Serial status) (unat (IdentityCounter status))
      (witnessPublicKey g')) signer = Ok (witnessPublicKeyAttestation g') \<and>
    deriveEd25519 env (bastionDiversifier status) (Serial status) = Ok (bastionSigningKey g', pub) \<and>
    note_Sign env (attestText ''ArmoredWitness BastionID attestation v1'' (Serial status) 0
      (hex_of (Sum256 pub))) signer = Ok (bastionIDAttestation g')"
  using derive_ok(3,4) [OF assms] by (auto simp: attestID_def attestBastion_def attestNote_def split: res.splits)

theorem attestations_bind_witness:
  "\<exists>g. deriveIdentityKeys (demo_env (demo_status 1)) no_keys = (Ok (), g) \<and>
    witnessPublicKeyAttestation g = attestText ''ArmoredWitness ID attestation v1'' ''AW1'' 1 (witnessPublicKey g) @
      attestSigningKey g"
proof -
  obtain g where g: "deriveIdentityKeys (demo_env (demo_status 1)) no_keys = (Ok (), g)" using demo_keys by metis
  have "rpc_Status (demo_env (demo_status 1)) = Ok (demo_status 1)" by (simp add: demo_env_def)
  from attestations_bind [OF g this] g show ?thesis by (auto simp: demo_env_def demo_status_def)
qed

text \<open>
  A failure never goes unnoticed: deriving the identities either sets all of them or ends the applet, and it
  ends the applet with no key set when the hardware refuses to derive one.
\<close>

lemma derive_or_exit:
  "fst (deriveIdentityKeys env g) \<noteq> Err e \<and>
    ((\<forall>b. \<exists>err. rpc_DeriveKey env b = Err err) \<longrightarrow> rpc_Status env = Ok status \<longrightarrow>
      deriveIdentityKeys env g = (Panic (Exit ''Failed to derive h/w key, %v''), g))"
proof
  have n: "deriveNoteSigner env d u (witnessName env s) \<noteq> Err e" "deriveNoteSigner env d u (attestName s) \<noteq> Err e" for d u s
    by (rule note_signer_no_err, simp)+
  have i: "attestID env h s k \<noteq> Err e" "attestBastion env h s k \<noteq> Err e" for h s k
    by (simp_all add: attestID_def attestBastion_def)
  show "fst (deriveIdentityKeys env g) \<noteq> Err e"
    using n i derive_no_err(2) by (auto simp: deriveIdentityKeys_def Let_def split: res.split)
  show "(\<forall>b. \<exists>err. rpc_DeriveKey env b = Err err) \<longrightarrow> rpc_Status env = Ok status \<longrightarrow>
      deriveIdentityKeys env g = (Panic (Exit ''Failed to derive h/w key, %v''), g)"
  proof (intro impI)
    assume "\<forall>b. \<exists>err. rpc_DeriveKey env b = Err err" "rpc_Status env = Ok status"
    moreover from this obtain err where "rpc_DeriveKey env (take aes_BlockSize
      (Sum256 (string_bytes (witnessDiversifier status)))) = Err err" by blast
    ultimately show "deriveIdentityKeys env g = (Panic (Exit ''Failed to derive h/w key, %v''), g)"
      by (simp add: deriveIdentityKeys_def deriveNoteSigner_def deriveHKDF_def)
  qed
qed

text \<open>
  C20. No key is derived for two purposes: the diversifier that goes to the hardware determines the purpose, the
  secure boot state and, for the witness key, the identity counter.
\<close>

theorem diversifiers_distinct:
  "(witnessDiversifier s = witnessDiversifier t \<longleftrightarrow> HAB s = HAB t \<and> IdentityCounter s = IdentityCounter t) \<and>
   (attestDiversifier s = attestDiversifier t \<longleftrightarrow> HAB s = HAB t) \<and>
   (bastionDiversifier s = bastionDiversifier t \<longleftrightarrow> HAB s = HAB t) \<and>
   witnessDiversifier s \<noteq> attestDiversifier t \<and> witnessDiversifier s \<noteq> bastionDiversifier t \<and>
   attestDiversifier s \<noteq> bastionDiversifier t"
  by (auto simp: witnessDiversifier_def attestDiversifier_def bastionDiversifier_def keyPrefix_def word_unat_eq_iff)

lemma line_split:
  assumes "c \<notin> set x" "c \<notin> set x'" "x @ c # y = x' @ c # y'"
  shows "x = x' \<and> y = y'"
  using assms
proof (induction x arbitrary: x')
  case Nil
  then show ?case by (cases x') auto
next
  case (Cons a x)
  then show ?case by (cases x') auto
qed

lemma dec_no_newline: "CHR 0x0A \<notin> set (dec n)"
  using dec_digits [of "CHR 0x0A" n] by auto

text \<open>
  C21. An attestation has one reading: for serial numbers without a line break, equal texts have the same title,
  serial number, counter and key. An identity attestation is never a bastion attestation.
\<close>

theorem attestation_unambiguous:
  assumes "t1 \<in> {''ArmoredWitness ID attestation v1'', ''ArmoredWitness BastionID attestation v1''}"
    and "t2 \<in> {''ArmoredWitness ID attestation v1'', ''ArmoredWitness BastionID attestation v1''}"
    and "CHR 0x0A \<notin> set s1" "CHR 0x0A \<notin> set s2"
    and "attestText t1 s1 c1 k1 = attestText t2 s2 c2 k2"
  shows "t1 = t2 \<and> s1 = s2 \<and> c1 = c2 \<and> k1 = k2"
proof -
  let ?n = "CHR 0x0A"
  have t: "?n \<notin> set t1" "?n \<notin> set t2" using assms(1,2) by auto
  have e: "t1 @ ?n # s1 @ ?n # dec c1 @ ?n # k1 @ [?n] = t2 @ ?n # s2 @ ?n # dec c2 @ ?n # k2 @ [?n]"
    using assms(5) by (simp add: attestText_def newline_def)
  note e1 = line_split [OF t e]
  note e2 = line_split [OF assms(3,4) conjunct2 [OF e1]]
  note e3 = line_split [OF dec_no_newline dec_no_newline conjunct2 [OF e2]]
  from e1 e2 e3 show ?thesis by simp
qed

theorem attestation_unambiguous_witness:
  "attestText ''ArmoredWitness ID attestation v1'' ''AW1'' 1 ''k'' \<noteq>
    attestText ''ArmoredWitness ID attestation v1'' ''AW1'' 2 ''k''"
  using attestation_unambiguous [of "''ArmoredWitness ID attestation v1''" "''ArmoredWitness ID attestation v1''"
    "''AW1''" "''AW1''" 1 "''k''" 2 "''k''"] by auto

text \<open>
  \<open>attestID\<close> ignores the key it is given: it attests the package's witness key, whatever key the caller
  passes.
\<close>

lemma attestID_ignores_argument: "attestID env g status pubkey = attestID env g status (witnessPublicKey g)"
  by (simp add: attestID_def)

end
