(* ===== verification/Net.thy ===== *)
theory Net
  imports Sha256 Fmt
begin

text \<open>
  Ethernet frames and addresses: the MAC address, the reception and transmission of frames and the event handler
  (\<open>net.go\<close>, \<open>handler.go\<close>).

  The system calls of the trusted OS are parameters: \<open>read len st\<close> is \<open>syscall.Read(RX, buf, len)\<close>, its count
  and the bytes it puts at the start of the buffer. The locale \<open>frame_source\<close> says what the handler
  relies on. \<open>MTU\<close> is the constant of \<open>imx-enet\<close>. The outbound queue of the link is a list of packets;
  the packets injected into the stack are collected in order.
\<close>

section \<open>The MAC address\<close>

fun colon_hex :: "bytes \<Rightarrow> string" where
  "colon_hex [] = []"
| "colon_hex [b] = hex2 b"
| "colon_hex (b # bs) = hex2 b @ '':'' @ colon_hex bs"

definition mac :: "string \<Rightarrow> string" where
  "mac serial =
     (let m = Sum256 (string_bytes (''MAC:'' @ serial));
          m1 = m[0 := m ! 0 AND 254];
          m2 = m1[0 := m1 ! 0 OR 2]
      in colon_hex [m2 ! 0, m2 ! 1, m2 ! 2, m2 ! 3, m2 ! 4, m2 ! 5])"

text \<open>\<open>net.ParseMAC\<close> of the standard library.\<close>

definition hex_val :: "char \<Rightarrow> nat option" where
  "hex_val c =
     (let n = of_char c :: nat
      in if 48 \<le> n \<and> n \<le> 57 then Some (n - 48)
         else if 97 \<le> n \<and> n \<le> 102 then Some (n - 87)
         else if 65 \<le> n \<and> n \<le> 70 then Some (n - 55)
         else None)"

definition xtoi2 :: "string \<Rightarrow> char \<Rightarrow> byte option" where
  "xtoi2 s e =
     (if 2 < length s \<and> s ! 2 \<noteq> e then None
      else case s of
        a # b # _ \<Rightarrow>
          (case (hex_val a, hex_val b) of
             (Some x, Some y) \<Rightarrow> Some (of_nat (16 * x + y))
           | _ \<Rightarrow> None)
      | _ \<Rightarrow> None)"

fun parse_colon :: "nat \<Rightarrow> char \<Rightarrow> string \<Rightarrow> bytes option" where
  "parse_colon 0 e s = Some []"
| "parse_colon (Suc n) e s =
     (case xtoi2 s e of
        None \<Rightarrow> None
      | Some b \<Rightarrow> map_option ((#) b) (parse_colon n e (drop 3 s)))"

fun parse_dot :: "nat \<Rightarrow> char \<Rightarrow> string \<Rightarrow> bytes option" where
  "parse_dot 0 e s = Some []"
| "parse_dot (Suc n) e s =
     (case (xtoi2 (take 2 s) (CHR 0x00), xtoi2 (drop 2 s) e) of
        (Some a, Some b) \<Rightarrow> map_option (\<lambda>bs. a # b # bs) (parse_dot n e (drop 5 s))
      | _ \<Rightarrow> None)"

definition ParseMAC :: "string \<Rightarrow> bytes res" where
  "ParseMAC s =
     (let r =
        (if length s < 14 then None
         else if s ! 2 = CHR '':'' \<or> s ! 2 = CHR ''-'' then
           (if (length s + 1) mod 3 \<noteq> 0 then None
            else let n = (length s + 1) div 3
                 in if n \<noteq> 6 \<and> n \<noteq> 8 \<and> n \<noteq> 20 then None else parse_colon n (s ! 2) s)
         else if s ! 4 = CHR ''.'' then
           (if (length s + 1) mod 5 \<noteq> 0 then None
            else let n = 2 * (length s + 1) div 5
                 in if n \<noteq> 6 \<and> n \<noteq> 8 \<and> n \<noteq> 20 then None else parse_dot (n div 2) (s ! 4) s)
         else None)
      in case r of None \<Rightarrow> Err (Errorf ''address: invalid MAC address'' []) | Some b \<Rightarrow> Ok b)"

lemma hex_val_digit [simp]: "n < 16 \<Longrightarrow> hex_val (digit n) = Some n"
  by (simp add: hex_val_def)

lemma xtoi2_hex2: "rest = [] \<or> hd rest = e \<Longrightarrow> xtoi2 (hex2 b @ rest) e = Some b"
proof -
  assume "rest = [] \<or> hd rest = e"
  then have "\<not> (2 < length (hex2 b @ rest) \<and> (hex2 b @ rest) ! 2 \<noteq> e)"
    by (cases rest) (auto simp: nth_append hex2_def)
  moreover have "16 * (unat b div 16) + unat b mod 16 = unat b" by simp
  ultimately show ?thesis using unat_byte [of b] by (simp add: xtoi2_def hex2_def)
qed

lemma parse_colon_hex: "parse_colon (length bs) (CHR '':'') (colon_hex bs) = Some bs"
  by (induction bs rule: colon_hex.induct) (simp_all add: xtoi2_hex2 [of "[]", simplified] xtoi2_hex2)

lemma length_colon_hex: "bs \<noteq> [] \<Longrightarrow> length (colon_hex bs) + 1 = 3 * length bs"
  by (induction bs rule: colon_hex.induct) simp_all

lemma ParseMAC_colon_hex: "length bs = 6 \<Longrightarrow> ParseMAC (colon_hex bs) = Ok bs"
proof -
  assume l: "length bs = 6"
  then obtain a b rest where bs: "bs = a # b # rest" by (cases bs rule: colon_hex.cases) auto
  have "length (colon_hex bs) = 17" using length_colon_hex [of bs] l by fastforce
  moreover have "colon_hex bs ! 2 = CHR '':''" by (simp add: bs nth_append hex2_def)
  ultimately show ?thesis using parse_colon_hex [of bs] l by (simp add: ParseMAC_def)
qed

lemma mac_valid:
  "\<exists>m. ParseMAC (mac serial) = Ok m \<and> length m = 6 \<and> \<not> bit (m ! 0) 0 \<and> bit (m ! 0) 1 \<and>
    (\<forall>i. bit (m ! 0) (i + 2) = bit (Sum256 (string_bytes (''MAC:'' @ serial)) ! 0) (i + 2)) \<and>
    tl m = take 5 (drop 1 (Sum256 (string_bytes (''MAC:'' @ serial))))"
proof -
  define h where "h = Sum256 (string_bytes (''MAC:'' @ serial))"
  have lh: "length h = 32" by (simp add: h_def)
  define m0 where "m0 = (h ! 0 AND 254) OR 2"
  define m where "m = [m0, h ! 1, h ! 2, h ! 3, h ! 4, h ! 5]"
  have "mac serial = colon_hex m" unfolding mac_def h_def [symmetric] by (simp add: m_def m0_def lh Let_def)
  moreover have "length m = 6" by (simp add: m_def)
  ultimately have p: "ParseMAC (mac serial) = Ok m" using ParseMAC_colon_hex by simp
  have b2: "bit (2 :: byte) n \<longleftrightarrow> n = 1" for n
    using bit_exp_iff [of 1 n, where 'a = byte] by auto
  have "(254 :: byte) = NOT 1" by simp
  then have b254: "bit (254 :: byte) n \<longleftrightarrow> n < 8 \<and> n \<noteq> 0" for n by (simp only: bit_not_iff) (simp add: bit_1_iff)
  have bits: "\<not> bit m0 0" "bit m0 1" "bit m0 (i + 2) = bit (h ! 0) (i + 2)" for i
    unfolding m0_def bit_or_iff bit_and_iff b2 b254 using bit_imp_le_length [of "h ! 0" "i + 2"] by auto
  have "tl m = take 5 (drop 1 h)"
    by (rule nth_equalityI) (auto simp: m_def lh nth_Cons numeral_eq_Suc split: nat.split)
  with p bits show ?thesis by (intro exI [of _ m]) (simp add: m_def h_def)
qed

text \<open>
  C32. The MAC address of a device is valid and local: it parses, as six bytes, to a unicast address (lowest bit
  clear) that is locally administered (second bit set), and its other 46 bits are those of the hash of
  the serial number.
\<close>

theorem mac_local_unicast:
  "\<exists>m. ParseMAC (mac serial) = Ok m \<and> length m = 6 \<and> \<not> bit (m ! 0) 0 \<and> bit (m ! 0) 1 \<and>
    (\<forall>i. bit (m ! 0) (i + 2) = bit (Sum256 (string_bytes (''MAC:'' @ serial)) ! 0) (i + 2)) \<and>
    tl m = take 5 (drop 1 (Sum256 (string_bytes (''MAC:'' @ serial))))"
  by (rule mac_valid)


section \<open>Frames\<close>

record inbound =
  in_proto :: "32 word"
  in_header :: bytes
  in_payload :: bytes

record packet =
  NetworkProtocolNumber :: "32 word"
  RemoteLinkAddress :: bytes
  AsSlices :: "bytes list"

definition rx :: "inbound list \<Rightarrow> bytes \<Rightarrow> inbound list" where
  "rx link buf =
     (if length buf < 14 then link
      else link @ [\<lparr>in_proto = ucast (be_get (take 2 (drop 12 buf)) :: 16 word), in_header = take 14 buf,
                    in_payload = drop 14 buf\<rparr>])"

definition tx :: "bytes \<Rightarrow> packet list \<Rightarrow> bytes \<times> packet list" where
  "tx nicMAC q =
     (case q of
        [] \<Rightarrow> ([], [])
      | pkt # q' \<Rightarrow>
          (RemoteLinkAddress pkt @ nicMAC @ be_put 2 (ucast (NetworkProtocolNumber pkt) :: 16 word) @ concat (AsSlices pkt), q'))"

definition WriteNotify :: "(bytes \<Rightarrow> 'o \<Rightarrow> 'o) \<Rightarrow> bytes \<Rightarrow> packet list \<Rightarrow> 'o \<Rightarrow> packet list \<times> 'o" where
  "WriteNotify write nicMAC q st = (case tx nicMAC q of (buf, q') \<Rightarrow> (q', write buf st))"

text \<open>
  C31. What one device sends another receives: a packet that \<open>tx\<close> puts in a frame for a six-byte address arrives,
  through \<open>rx\<close>, with its payload, its 16-bit protocol number and the addresses in the header.
\<close>

theorem frame_roundtrip:
  assumes "length (RemoteLinkAddress pkt) = 6" "length nicMAC = 6" "NetworkProtocolNumber pkt < 2 ^ 16"
  shows "rx link (fst (tx nicMAC (pkt # q))) = link @ [\<lparr>in_proto = NetworkProtocolNumber pkt,
    in_header = RemoteLinkAddress pkt @ nicMAC @ be_put 2 (ucast (NetworkProtocolNumber pkt) :: 16 word),
    in_payload = concat (AsSlices pkt)\<rparr>]"
proof -
  let ?p = "ucast (NetworkProtocolNumber pkt) :: 16 word" and ?f = "fst (tx nicMAC (pkt # q))"
  have "take 2 (drop 12 ?f) = be_put 2 ?p" "drop 14 ?f = concat (AsSlices pkt)"
    "take 14 ?f = RemoteLinkAddress pkt @ nicMAC @ be_put 2 ?p" "\<not> length ?f < 14"
    using assms(1,2) by (simp_all add: tx_def)
  moreover have "ucast (be_get (be_put 2 ?p) :: 16 word) = NetworkProtocolNumber pkt"
    using assms(3) by (simp add: unsigned_ucast_eq take_bit_eq_mod mod_word_less)
  ultimately show ?thesis by (simp add: rx_def)
qed

theorem frame_roundtrip_witness:
  "rx [] (fst (tx [2, 0, 0, 0, 0, 1] [\<lparr>NetworkProtocolNumber = 2048, RemoteLinkAddress = [2, 0, 0, 0, 0, 9], AsSlices = [[1], [2, 3]]\<rparr>])) =
    [\<lparr>in_proto = 2048, in_header = [2, 0, 0, 0, 0, 9] @ [2, 0, 0, 0, 0, 1] @ be_put 2 (2048 :: 16 word), in_payload = [1, 2, 3]\<rparr>]"
  using frame_roundtrip [of "\<lparr>NetworkProtocolNumber = 2048, RemoteLinkAddress = [2, 0, 0, 0, 0, 9], AsSlices = [[1], [2, 3]]\<rparr>"
    "[2, 0, 0, 0, 0, 1]" "[]" "[]"] by simp


section \<open>The event handler\<close>

type_synonym 'o os_read = "nat \<Rightarrow> 'o \<Rightarrow> int \<times> bytes \<times> 'o"

definition rxFromEth :: "'o os_read \<Rightarrow> nat \<Rightarrow> bytes \<Rightarrow> 'o \<Rightarrow> int \<times> bytes \<times> 'o" where
  "rxFromEth read MTU buf st =
     (case read (length buf) st of (n, data, st') \<Rightarrow>
        (if n = 0 \<or> n > int MTU then 0 else n, gocopy buf data, st'))"

text \<open>The inner loop of the handler: \<open>out[0:n]\<close> panics when \<open>n\<close> exceeds the buffer.\<close>

partial_function (option) drain :: "'o os_read \<Rightarrow> nat \<Rightarrow> bytes \<Rightarrow> inbound list \<Rightarrow> 'o \<Rightarrow> (unit res \<times> bytes \<times> inbound list \<times> 'o) option" where
  "drain read MTU out link st =
     (case rxFromEth read MTU out st of (n, out', st') \<Rightarrow>
        (if n > 0 then
           (if n > int (length out') then Some (Panic IndexOutOfRange, out', link, st')
            else drain read MTU out' (rx link (take (nat n) out')) st')
         else Some (Ok (), out', link, st')))"

text \<open>The handler after its registration: one run of the loop for each of the wake-ups.\<close>

fun handle_wakes :: "'o os_read \<Rightarrow> nat \<Rightarrow> nat \<Rightarrow> bytes \<Rightarrow> inbound list \<Rightarrow> 'o \<Rightarrow> (unit res \<times> bytes \<times> inbound list \<times> 'o) option" where
  "handle_wakes read MTU 0 out link st = Some (Ok (), out, link, st)"
| "handle_wakes read MTU (Suc k) out link st =
     (case drain read MTU out link st of
        Some (Ok _, out', link', st') \<Rightarrow> handle_wakes read MTU k out' link' st'
      | r \<Rightarrow> r)"

definition eventHandler :: "'o os_read \<Rightarrow> nat \<Rightarrow> go_error option \<Rightarrow> nat \<Rightarrow> inbound list \<Rightarrow> 'o \<Rightarrow>
    (unit res \<times> bytes \<times> inbound list \<times> 'o) option" where
  "eventHandler read MTU register wakes link st =
     (case register of
        Some e \<Rightarrow> Some (Panic (Exit ''TA event handler registration error, %v''), [], link, st)
      | None \<Rightarrow> handle_wakes read MTU wakes (replicate MTU 0) link st)"

lemma length_rxFromEth: "rxFromEth read MTU out st = (n, out', st') \<Longrightarrow> length out' = length out"
  by (auto simp: rxFromEth_def split: prod.splits)

lemma rxFromEth_bound: "rxFromEth read MTU out st = (n, out', st') \<Longrightarrow> n \<le> int MTU"
  by (auto simp: rxFromEth_def split: prod.splits if_splits)

lemma drain_no_panic:
  assumes "drain read MTU out link st = Some y"
  shows "length out = MTU \<longrightarrow> fst y = Ok () \<and> length (fst (snd y)) = MTU"
proof (rule drain.raw_induct [OF _ assms], intro impI)
  fix loop :: "'a os_read \<Rightarrow> nat \<Rightarrow> bytes \<Rightarrow> inbound list \<Rightarrow> 'a \<Rightarrow> (unit res \<times> bytes \<times> inbound list \<times> 'a) option"
    and read MTU out link st y
  assume IH: "\<And>read MTU out link st y. loop read MTU out link st = Some y \<Longrightarrow>
      length out = MTU \<longrightarrow> fst y = Ok () \<and> length (fst (snd y)) = MTU"
    and body: "(case rxFromEth read MTU out st of (n, out', st') \<Rightarrow>
        (if n > 0 then
           (if n > int (length out') then Some (Panic IndexOutOfRange, out', link, st')
            else loop read MTU out' (rx link (take (nat n) out')) st')
         else Some (Ok (), out', link, st'))) = Some y"
    and l: "length out = MTU"
  obtain n out' st' where x: "rxFromEth read MTU out st = (n, out', st')" by (metis prod_cases3)
  note len = length_rxFromEth [OF x] and bd = rxFromEth_bound [OF x]
  show "fst y = Ok () \<and> length (fst (snd y)) = MTU"
    using body x len bd l IH by (auto split: if_splits)
qed

lemma wakes_no_panic:
  "handle_wakes read MTU k out link st = Some y \<Longrightarrow> length out = MTU \<Longrightarrow> fst y = Ok ()"
proof (induction k arbitrary: out link st)
  case (Suc k)
  then obtain z where z: "drain read MTU out link st = Some z" by (auto split: option.splits)
  with drain_no_panic [OF z] Suc show ?case by (auto split: prod.splits)
qed auto

text \<open>
  What the handler relies on: a read with a buffer that is long enough returns the next frame, or 0 when there
  is none.
\<close>

locale frame_source =
  fixes read :: "'o os_read" and frames :: "'o \<Rightarrow> bytes list"
  assumes read_none: "frames st = [] \<Longrightarrow> \<exists>data st'. read len st = (0, data, st') \<and> frames st' = []"
    and read_frame: "frames st = f # fs \<Longrightarrow> length f \<le> len \<Longrightarrow>
      \<exists>st'. read len st = (int (length f), f, st') \<and> frames st' = fs"
begin

lemma drain_frames:
  assumes "length out = MTU" "\<forall>f \<in> set fs. f \<noteq> [] \<and> length f \<le> MTU" "frames st = fs"
  shows "\<exists>out' st'. drain read MTU out link st = Some (Ok (), out', foldl rx link fs, st') \<and> length out' = MTU \<and> frames st' = []"
  using assms
proof (induction fs arbitrary: out link st)
  case Nil
  from read_none [OF Nil(3), of "length out"] obtain data st' where
    "read (length out) st = (0, data, st')" "frames st' = []" by blast
  then show ?case using Nil(1) by (simp add: drain.simps [of read MTU out] rxFromEth_def)
next
  case (Cons f fs)
  have f: "f \<noteq> []" "length f \<le> length out" using Cons.prems(1,2) by auto
  from read_frame [OF Cons.prems(3) f(2)] obtain st1 where
    st1: "read (length out) st = (int (length f), f, st1)" "frames st1 = fs" by blast
  have pre: "take (length f) (gocopy out f) = f" using f(2) by (simp add: gocopy_def)
  have step: "drain read MTU out link st = drain read MTU (gocopy out f) (rx link f) st1"
    unfolding drain.simps [of read MTU out] using st1(1) f pre Cons.prems(1) by (simp add: rxFromEth_def)
  show ?case unfolding step using Cons.IH [of "gocopy out f" st1 "rx link f"] Cons.prems st1(2) by simp
qed

end

text \<open>The operating system with a queue of received frames.\<close>

definition queue_read :: "bytes list os_read" where
  "queue_read len q = (case q of [] \<Rightarrow> (0, [], []) | f # q' \<Rightarrow> (int (length (take len f)), take len f, q'))"

interpretation eth: frame_source queue_read "\<lambda>q. q"
  by unfold_locales (auto simp: queue_read_def)

text \<open>
  C30. The event handler never panics, whatever the operating system's read returns: the slice of the receive
  buffer that it hands on is always in range.
\<close>

theorem eventHandler_safe:
  assumes "eventHandler read MTU None wakes link st = Some (r, out, link', st')"
  shows "r = Ok ()"
  using wakes_no_panic [of read MTU wakes "replicate MTU 0" link st] assms by (auto simp: eventHandler_def)

theorem eventHandler_safe_witness:
  "\<exists>r out link st. eventHandler (queue_read) 4 None 1 [] [[1, 2, 3, 4, 5]] = Some (r, out, link, st) \<and> r = Ok ()"
proof -
  have "\<exists>r out link st. eventHandler queue_read 4 None 1 [] [[1, 2, 3, 4, 5]] = Some (r, out, link, st)"
    by (simp add: eventHandler_def drain.simps rxFromEth_def queue_read_def numeral_eq_Suc)
  then show ?thesis using eventHandler_safe [of queue_read 4 1 "[]" "[[1, 2, 3, 4, 5]]"] by blast
qed

text \<open>
  C29. No frame is lost or reordered: when woken with any number of frames waiting, none empty or longer than the
  MTU, the handler terminates with all of them passed to \<open>rx\<close> in order, and none waiting.
\<close>

theorem eventHandler_delivers:
  assumes "frame_source read frames" "\<forall>f \<in> set (frames st). f \<noteq> [] \<and> length f \<le> MTU"
  shows "\<exists>out st'. eventHandler read MTU None 1 link st = Some (Ok (), out, foldl rx link (frames st), st') \<and> frames st' = []"
proof -
  from frame_source.drain_frames [OF assms(1), of "replicate MTU 0" MTU "frames st" st link] assms(2)
  obtain out st' where "drain read MTU (replicate MTU 0) link st = Some (Ok (), out, foldl rx link (frames st), st')"
    "frames st' = []" by auto
  then show ?thesis by (simp add: eventHandler_def)
qed

theorem eventHandler_delivers_witness:
  "\<exists>out. eventHandler queue_read 20 None 1 [] [replicate 15 7, [1, 2], replicate 20 8] =
    Some (Ok (), out, foldl rx [] [replicate 15 7, [1, 2], replicate 20 8], [])"
  using eventHandler_delivers [OF eth.frame_source_axioms, of "[replicate 15 7, [1, 2], replicate 20 8]" 20 "[]"] by auto

end
