(* ===== verification/NetStart.thy ===== *)
theory NetStart
  imports Keys Net
begin

text \<open>
  The start of the network stack and the clock, \<open>startNetworking\<close> and \<open>runNTP\<close> of \<open>net.go\<close>.

  Parameters, in the record \<open>net_env\<close>: the trusted OS, gVisor, the \<open>imx-enet\<close> driver and the DNS cache. For the
  clock, the outcome of each round (the resolver's and the NTP server's answers) is an argument.
\<close>

section \<open>Starting the network\<close>

record Configuration =
  cfg_DHCP :: bool
  cfg_IP :: string
  cfg_Netmask :: string
  cfg_Gateway :: string
  cfg_Resolver :: string
  cfg_NTPServer :: string

record net_env =
  net_Status :: "Status res"
  tcpip_ParseMACAddress :: "string \<Rightarrow> bytes res"
  stack_CreateNIC :: "bytes \<Rightarrow> unit res"
  nic_Init :: "unit res"
  iface_Init :: "string \<Rightarrow> string \<Rightarrow> string \<Rightarrow> string \<Rightarrow> bytes res"
  dnscache_New :: "unit res"

record net_vars =
  resolvers :: "string list"
  nicMAC :: "bytes option"
  icmpEnabled :: bool
  txNotify :: bool
  socketFunc :: bool

text \<open>
  The branch for DHCP returns early on an error; it returns the MAC of the interface otherwise. The result of
  \<open>NIC.Init\<close> goes to a variable of the branch, which is not looked at again.
\<close>

definition start_dhcp :: "net_env \<Rightarrow> string \<Rightarrow> bytes res" where
  "start_dhcp env serial =
     (let macAddress = mac serial
      in case ParseMAC macAddress of
           Err e \<Rightarrow> Err (Errorf ''invalid MAC: %v'' [e])
         | Panic x \<Rightarrow> Panic x
         | Ok linkAddress \<Rightarrow>
             (case tcpip_ParseMACAddress env macAddress of
                Err e \<Rightarrow> Err (Errorf ''invalid MAC: %v'' [e])
              | Panic x \<Rightarrow> Panic x
              | Ok gvHWAddress \<Rightarrow>
                  (case stack_CreateNIC env gvHWAddress of
                     Err e \<Rightarrow> Err (Errorf ''%v'' [e])
                   | Panic x \<Rightarrow> Panic x
                   | Ok _ \<Rightarrow>
                       (case nic_Init env of
                          Panic x \<Rightarrow> Panic x
                        | _ \<Rightarrow> Ok linkAddress))))"

definition startNetworking :: "net_env \<Rightarrow> Configuration \<Rightarrow> net_vars \<Rightarrow> unit res \<times> net_vars" where
  "startNetworking env cfg v =
     (let v1 = v\<lparr>resolvers := [cfg_Resolver cfg]\<rparr>
      in case net_Status env of
           Err e \<Rightarrow> (Err (Errorf ''failed to fetch Status: %v'' [e]), v1)
         | Panic x \<Rightarrow> (Panic x, v1)
         | Ok status \<Rightarrow>
             (case (if cfg_DHCP cfg then start_dhcp env (Serial status)
                    else iface_Init env (cfg_IP cfg) (cfg_Netmask cfg) (mac (Serial status)) (cfg_Gateway cfg)) of
                Err e \<Rightarrow> (Err e, v1)
              | Panic x \<Rightarrow> (Panic x, v1)
              | Ok hw \<Rightarrow>
                  (let v2 = v1\<lparr>nicMAC := Some hw, icmpEnabled := True, txNotify := True\<rparr>
                   in case dnscache_New env of
                        Err e \<Rightarrow> (Err (Errorf ''failed to create DNS cache: %v'' [e]), v2)
                      | Panic x \<Rightarrow> (Panic x, v2)
                      | Ok _ \<Rightarrow> (Ok (), v2\<lparr>socketFunc := True\<rparr>))))"

lemma mac_parses: "\<exists>m. ParseMAC (mac serial) = Ok m \<and> length m = 6 \<and> \<not> bit (m ! 0) 0 \<and> bit (m ! 0) 1"
  using mac_valid by blast

text \<open>
  C33. With DHCP, networking starts exactly when the OS reports its status, gVisor accepts the address and the
  interface, and the DNS cache starts. The interface then has the six-byte local address of the device, and it
  is hooked into the runtime. An error of the NIC's own initialisation is not among the conditions: it is lost.
\<close>

theorem startNetworking_dhcp:
  assumes "cfg_DHCP cfg" "\<forall>x. nic_Init env \<noteq> Panic x"
  shows "(fst (startNetworking env cfg v) = Ok () \<longleftrightarrow>
    (\<exists>status hw. net_Status env = Ok status \<and> tcpip_ParseMACAddress env (mac (Serial status)) = Ok hw \<and>
      stack_CreateNIC env hw = Ok () \<and> dnscache_New env = Ok ())) \<and>
    (fst (startNetworking env cfg v) = Ok () \<longrightarrow> socketFunc (snd (startNetworking env cfg v)) \<and>
      (\<exists>m. nicMAC (snd (startNetworking env cfg v)) = Some m \<and> length m = 6 \<and> \<not> bit (m ! 0) 0 \<and> bit (m ! 0) 1))"
proof (cases "net_Status env")
  case (Ok status)
  obtain m where m: "ParseMAC (mac (Serial status)) = Ok m" "length m = 6" "\<not> bit (m ! 0) 0" "bit (m ! 0) 1"
    using mac_parses by blast
  have "start_dhcp env (Serial status) = Ok m \<longleftrightarrow>
      (\<exists>hw. tcpip_ParseMACAddress env (mac (Serial status)) = Ok hw \<and> stack_CreateNIC env hw = Ok ())"
    using assms(2) by (auto simp: start_dhcp_def m Let_def split: res.splits)
  moreover have "start_dhcp env (Serial status) = Ok m' \<Longrightarrow> m' = m" for m'
    by (auto simp: start_dhcp_def m Let_def split: res.splits)
  ultimately show ?thesis using assms(1) Ok m
    by (cases "start_dhcp env (Serial status)"; cases "dnscache_New env") (auto simp: startNetworking_def Let_def)
qed (simp_all add: startNetworking_def)

definition demo_net :: net_env where
  "demo_net = \<lparr>net_Status = Ok (demo_status 1), tcpip_ParseMACAddress = ParseMAC, stack_CreateNIC = (\<lambda>hw. Ok ()),
     nic_Init = Err (Sentinel ''NIC''), iface_Init = (\<lambda>ip mask m gw. ParseMAC m), dnscache_New = Ok ()\<rparr>"

definition demo_netcfg :: Configuration where
  "demo_netcfg = \<lparr>cfg_DHCP = True, cfg_IP = ''10.0.0.1'', cfg_Netmask = ''255.255.255.0'', cfg_Gateway = ''10.0.0.2'',
     cfg_Resolver = ''8.8.8.8:53'', cfg_NTPServer = ''time.google.com''\<rparr>"

definition no_net :: net_vars where
  "no_net = \<lparr>resolvers = [], nicMAC = None, icmpEnabled = False, txNotify = False, socketFunc = False\<rparr>"

theorem startNetworking_dhcp_witness:
  "nic_Init demo_net = Err (Sentinel ''NIC'') \<and> fst (startNetworking demo_net demo_netcfg no_net) = Ok ()"
proof -
  obtain m where "ParseMAC (mac (Serial (demo_status 1))) = Ok m" using mac_parses by blast
  then show ?thesis
    using startNetworking_dhcp [of demo_netcfg demo_net no_net] by (simp add: demo_net_def demo_netcfg_def)
qed


section \<open>The clock\<close>

text \<open>
  The variables of the NTP goroutine: the interval in seconds, whether \<open>r\<close> is nil, and the effects: whether the
  channel is closed and the times that were set. Closing a channel twice panics.
\<close>

record ntp_run =
  ntp_i :: nat
  ntp_r_nil :: bool
  ntp_closed :: bool
  ntp_times :: "int list"

text \<open>\<open>runNTP\<close> returns a nil channel without a server, and starts the goroutine otherwise.\<close>

definition runNTP :: "Configuration \<Rightarrow> ntp_run option" where
  "runNTP cfg =
     (if cfg_NTPServer cfg = [] then None
      else Some \<lparr>ntp_i = 10, ntp_r_nil = False, ntp_closed = False, ntp_times = []\<rparr>)"

text \<open>
  A round after the wait: the addresses that the resolver found, and the answer of the server at the first, a
  time and the result of its validation.
\<close>

record ntp_outcome =
  no_lookup :: "string list res"
  no_query :: "string \<Rightarrow> (int \<times> go_error option) res"

definition ntp_set_time :: "int \<Rightarrow> ntp_run \<Rightarrow> unit res \<times> ntp_run" where
  "ntp_set_time t st =
     (let st1 = st\<lparr>ntp_times := ntp_times st @ [t], ntp_i := 3600\<rparr>
      in if ntp_r_nil st1 then (Ok (), st1)
         else if ntp_closed st1 then (Panic (PanicMsg ''close of closed channel''), st1)
         else (Ok (), st1\<lparr>ntp_closed := True, ntp_r_nil := True\<rparr>))"

definition ntp_round :: "ntp_outcome \<Rightarrow> ntp_run \<Rightarrow> unit res \<times> ntp_run" where
  "ntp_round out st =
     (case no_lookup out of
        Err e \<Rightarrow> (Ok (), st)
      | Panic x \<Rightarrow> (Panic x, st)
      | Ok [] \<Rightarrow> (Panic IndexOutOfRange, st)
      | Ok (ip # _) \<Rightarrow>
          (case no_query out ip of
             Err e \<Rightarrow> (Ok (), st)
           | Panic x \<Rightarrow> (Panic x, st)
           | Ok (t, Some e) \<Rightarrow> (Ok (), st)
           | Ok (t, None) \<Rightarrow> ntp_set_time t st))"

fun ntp_loop :: "ntp_outcome list \<Rightarrow> ntp_run \<Rightarrow> unit res \<times> ntp_run" where
  "ntp_loop [] st = (Ok (), st)"
| "ntp_loop (out # outs) st =
     (case ntp_round out st of
        (Ok _, st') \<Rightarrow> ntp_loop outs st'
      | r \<Rightarrow> r)"

text \<open>The time of a round, if it got a valid one.\<close>

definition ntp_time :: "ntp_outcome \<Rightarrow> int option" where
  "ntp_time out =
     (case no_lookup out of
        Ok (ip # _) \<Rightarrow> (case no_query out ip of Ok (t, None) \<Rightarrow> Some t | _ \<Rightarrow> None)
      | _ \<Rightarrow> None)"

text \<open>What the standard library promises: a lookup without an error has an address, and calls do not panic.\<close>

definition ntp_answers :: "ntp_outcome \<Rightarrow> bool" where
  "ntp_answers out \<longleftrightarrow> no_lookup out \<noteq> Ok [] \<and> \<not> is_Panic (no_lookup out) \<and>
     (case no_lookup out of Ok (ip # _) \<Rightarrow> \<not> is_Panic (no_query out ip) | _ \<Rightarrow> True)"

definition ntp_inv :: "ntp_run \<Rightarrow> bool" where
  "ntp_inv st \<longleftrightarrow> ntp_r_nil st = ntp_closed st \<and> (ntp_closed st \<longleftrightarrow> ntp_times st \<noteq> []) \<and>
     ntp_i st = (if ntp_closed st then 3600 else 10)"

lemma ntp_round_time:
  "ntp_answers out \<Longrightarrow> ntp_round out st = (case ntp_time out of None \<Rightarrow> (Ok (), st) | Some t \<Rightarrow> ntp_set_time t st)"
  by (auto simp: ntp_round_def ntp_answers_def ntp_time_def split: res.split list.split option.split)

lemma ntp_set_time_inv:
  "ntp_inv st \<Longrightarrow> \<exists>st'. ntp_set_time t st = (Ok (), st') \<and> ntp_inv st' \<and> ntp_times st' = ntp_times st @ [t]"
  by (cases "ntp_closed st") (auto simp: ntp_set_time_def ntp_inv_def Let_def)

lemma ntp_round_inv:
  assumes "ntp_inv st" "ntp_answers out"
  shows "\<exists>st'. ntp_round out st = (Ok (), st') \<and> ntp_inv st' \<and>
    ntp_times st' = ntp_times st @ (case ntp_time out of None \<Rightarrow> [] | Some t \<Rightarrow> [t])"
  using assms(1) ntp_set_time_inv [OF assms(1)] by (simp add: ntp_round_time [OF assms(2)] split: option.split)

lemma ntp_loop_inv:
  "ntp_inv st \<Longrightarrow> list_all ntp_answers outs \<Longrightarrow>
    \<exists>st'. ntp_loop outs st = (Ok (), st') \<and> ntp_inv st' \<and> ntp_times st' = ntp_times st @ List.map_filter ntp_time outs"
proof (induction outs arbitrary: st)
  case (Cons out outs)
  from ntp_round_inv [OF Cons.prems(1), of out] Cons.prems(2) obtain st1 where
    st1: "ntp_round out st = (Ok (), st1)" "ntp_inv st1"
      "ntp_times st1 = ntp_times st @ (case ntp_time out of None \<Rightarrow> [] | Some t \<Rightarrow> [t])" by auto
  from Cons.IH [OF st1(2)] Cons.prems(2) obtain st2 where
    st2: "ntp_loop outs st1 = (Ok (), st2)" "ntp_inv st2" "ntp_times st2 = ntp_times st1 @ List.map_filter ntp_time outs" by auto
  show ?case by (rule exI [of _ st2]) (simp add: st1(1,3) st2 List.map_filter_simps split: option.split)
qed (simp add: List.map_filter_simps)

text \<open>
  C34. The clock goroutine never panics: whatever the resolver and the server answer, every valid time is set, in
  order; the channel is closed exactly once, by the first valid time, and from then on the interval is an hour
  instead of ten seconds.
\<close>

theorem ntp_signals_once:
  assumes "runNTP cfg = Some st" "list_all ntp_answers outs"
  shows "\<exists>st'. ntp_loop outs st = (Ok (), st') \<and> ntp_times st' = List.map_filter ntp_time outs \<and>
    (ntp_closed st' \<longleftrightarrow> ntp_times st' \<noteq> []) \<and> ntp_i st' = (if ntp_closed st' then 3600 else 10)"
proof -
  have st: "ntp_inv st" "ntp_times st = []" using assms(1) by (auto simp: runNTP_def ntp_inv_def split: if_splits)
  from ntp_loop_inv [OF st(1) assms(2)] obtain st' where st': "ntp_loop outs st = (Ok (), st')" "ntp_inv st'"
    "ntp_times st' = List.map_filter ntp_time outs" by (auto simp: st(2))
  then show ?thesis by (intro exI [of _ st'] conjI) (simp_all add: ntp_inv_def)
qed

definition demo_rounds :: "ntp_outcome list" where
  "demo_rounds =
     [\<lparr>no_lookup = Err (Sentinel ''dns''), no_query = (\<lambda>ip. Err (Sentinel ''x''))\<rparr>,
      \<lparr>no_lookup = Ok [''1.2.3.4''], no_query = (\<lambda>ip. Ok (100, None))\<rparr>,
      \<lparr>no_lookup = Ok [''1.2.3.4''], no_query = (\<lambda>ip. Ok (200, None))\<rparr>]"

theorem ntp_signals_once_witness:
  "\<exists>st st'. runNTP demo_netcfg = Some st \<and> ntp_loop demo_rounds st = (Ok (), st') \<and> ntp_times st' = [100, 200] \<and> ntp_closed st'"
proof -
  obtain st where st: "runNTP demo_netcfg = Some st" by (simp add: runNTP_def demo_netcfg_def)
  have "list_all ntp_answers demo_rounds" by (simp add: demo_rounds_def ntp_answers_def)
  moreover have "List.map_filter ntp_time demo_rounds = [100, 200]"
    by (simp add: demo_rounds_def ntp_time_def List.map_filter_simps)
  ultimately obtain st' where st': "ntp_loop demo_rounds st = (Ok (), st')" "ntp_times st' = [100, 200]" "ntp_closed st'"
    using ntp_signals_once [OF st, of demo_rounds] by auto
  with st show ?thesis by blast
qed

end
