(* ===== verification/RunWitness.thy ===== *)
theory RunWitness
  imports NetStart
begin

text \<open>
  The witness on the network, \<open>runWithNetworking\<close> of \<open>main.go\<close>, the loop of \<open>runDHCP\<close> that calls it, the handlers
  of the admin server and \<open>cleanForDNS\<close>.

  \<open>runWithNetworking\<close> is a function from the outcomes of the calls it makes (the record \<open>run_env\<close>) to its
  result and the list of its effects in order; \<open>None\<close> is a run that blocks for ever. The deferred closing
  of the listeners is part of the list, and \<open>klog.Exitf\<close> does not run it.
\<close>

section \<open>The witness\<close>

datatype event =
    SetWitnessStatus string
  | StartNTP
  | SleepSecond
  | StartUpdateChecker
  | Listen nat
  | ServeAdmin
  | WitnessStarted
  | OmniwitnessMain "string option"
  | Close nat

text \<open>
  The outcomes of the calls. Those of the select are computed: \<open>re_ntpRounds\<close> are the rounds of the NTP goroutine up
  to the select, \<open>re_ctxErr\<close> is the error of the context by then, and \<open>re_pick\<close> is the choice between two
  ready cases. \<open>re_now\<close> is the clock at the start, in nanoseconds.
\<close>

record run_env =
  re_addr :: "string res"
  re_now :: int
  re_cfg :: Configuration
  re_ntpRounds :: "ntp_outcome list"
  re_ctxErr :: "go_error option"
  re_pick :: bool
  re_listenAdmin :: "unit res"
  re_signer :: "unit res"
  re_bastionAddr :: string
  re_listenMain :: "unit res"
  re_omniwitness :: "unit res"
  re_ctxErrEnd :: "go_error option"

text \<open>The clock shows a time before 1 January 2024, 00:00 UTC.\<close>

definition coldStart :: "int \<Rightarrow> bool" where
  "coldStart now \<longleftrightarrow> now < 1704067200 * 10 ^ 9"

text \<open>
  The select: the channel of \<open>runNTP\<close> is ready once it is closed, a nil channel never. A panic of the NTP goroutine
  ends the applet.
\<close>

datatype ntp_select = NtpReady | CtxDone go_error | Blocked | Crashed go_panic

definition select_ntp :: "run_env \<Rightarrow> ntp_select" where
  "select_ntp env =
     (let done = (case re_ctxErr env of None \<Rightarrow> Blocked | Some e \<Rightarrow> CtxDone e)
      in case runNTP (re_cfg env) of
           None \<Rightarrow> done
         | Some st \<Rightarrow>
             (case ntp_loop (re_ntpRounds env) st of
                (Panic x, st') \<Rightarrow> Crashed x
              | (_, st') \<Rightarrow> if ntp_closed st' \<and> (done = Blocked \<or> re_pick env) then NtpReady else done))"

definition ctx_Err :: "run_env \<Rightarrow> unit res" where
  "ctx_Err env = (case re_ctxErrEnd env of None \<Rightarrow> Ok () | Some e \<Rightarrow> Err e)"

text \<open>The part after the admin listener is open, whose deferred closing comes last.\<close>

definition run_witness :: "run_env \<Rightarrow> unit res \<times> event list" where
  "run_witness env =
     (case re_signer env of
        Err e \<Rightarrow> (Panic (Exit ''Failed to init signer v1: %v''), [ServeAdmin])
      | Panic x \<Rightarrow> (Panic x, [ServeAdmin, Close 8081])
      | Ok _ \<Rightarrow>
          (case re_listenMain env of
             Err e \<Rightarrow> (Err (Errorf ''could not initialize HTTP listener: %v'' [e]), [ServeAdmin, Close 8081])
           | Panic x \<Rightarrow> (Panic x, [ServeAdmin, Close 8081])
           | Ok _ \<Rightarrow>
               (let bastion = (if re_bastionAddr env \<noteq> [] then Some (re_bastionAddr env) else None);
                    evs = [ServeAdmin, Listen 80, WitnessStarted, OmniwitnessMain bastion, Close 80, Close 8081]
                in case re_omniwitness env of
                     Err e \<Rightarrow> (Err (Errorf ''omniwitness.Main failed: %v'' [e]), evs)
                   | Panic x \<Rightarrow> (Panic x, evs)
                   | Ok _ \<Rightarrow> (ctx_Err env, evs))))"

definition runWithNetworking :: "run_env \<Rightarrow> (unit res \<times> event list) option" where
  "runWithNetworking env =
     (case re_addr env of
        Err e \<Rightarrow> Some (Err (Errorf ''runWithNetworking has no network configured: %v'' [e]), [])
      | Panic x \<Rightarrow> Some (Panic x, [])
      | Ok addr \<Rightarrow>
          (let pre = [SetWitnessStatus addr, StartNTP]
           in case select_ntp env of
                Blocked \<Rightarrow> None
              | Crashed x \<Rightarrow> Some (Panic x, pre)
              | CtxDone e \<Rightarrow> Some (Err e, pre)
              | NtpReady \<Rightarrow>
                  if coldStart (re_now env) then Some (Ok (), pre @ [SleepSecond])
                  else
                    (case re_listenAdmin env of
                       Err e \<Rightarrow> Some (Err (Errorf ''TA could not initialize admin listener, %v'' [e]), pre @ [StartUpdateChecker])
                     | Panic x \<Rightarrow> Some (Panic x, pre @ [StartUpdateChecker])
                     | Ok _ \<Rightarrow>
                         (case run_witness env of
                            (r, evs) \<Rightarrow> Some (r, pre @ [StartUpdateChecker, Listen 8081] @ evs)))))"

text \<open>The goroutine of \<open>runDHCP\<close>: it calls \<open>f\<close> until it returns \<open>context.Canceled\<close>.\<close>

definition is_Canceled :: "unit res \<Rightarrow> bool" where
  "is_Canceled r \<longleftrightarrow> r = Err (Sentinel ''context.Canceled'')"

fun run_f :: "run_env list \<Rightarrow> (unit res \<times> event list) option" where
  "run_f [] = Some (Ok (), [])"
| "run_f (env # envs) =
     (case runWithNetworking env of
        None \<Rightarrow> None
      | Some (Panic x, evs) \<Rightarrow> Some (Panic x, evs)
      | Some (r, evs) \<Rightarrow>
          if is_Canceled r then Some (r, evs)
          else (case run_f envs of None \<Rightarrow> None | Some (r', evs') \<Rightarrow> Some (r', evs @ evs')))"


section \<open>The admin handlers\<close>

record reply =
  reply_code :: nat
  reply_type :: "string option"
  reply_body :: bytes

definition logHandler_ServeHTTP :: "(string \<Rightarrow> bytes res) \<Rightarrow> string \<Rightarrow> reply res" where
  "logHandler_ServeHTTP call rpcName =
     (case call rpcName of
        Err e \<Rightarrow> Ok \<lparr>reply_code = 500, reply_type = None, reply_body = []\<rparr>
      | Panic x \<Rightarrow> Panic x
      | Ok l \<Rightarrow> Ok \<lparr>reply_code = 200, reply_type = Some ''text/plain'', reply_body = l\<rparr>)"

definition status_handler :: "(go_error \<Rightarrow> string) \<Rightarrow> ('s \<Rightarrow> string) \<Rightarrow> 's res \<Rightarrow> reply res" where
  "status_handler err_text print st =
     (case st of
        Err e \<Rightarrow> Ok \<lparr>reply_code = 500, reply_type = Some ''text/plain'', reply_body = string_bytes (err_text e)\<rparr>
      | Panic x \<Rightarrow> Panic x
      | Ok s \<Rightarrow> Ok \<lparr>reply_code = 200, reply_type = Some ''text/plain'', reply_body = string_bytes (print s)\<rparr>)"

text \<open>
  The admin server's mux. \<open>/updatecheck\<close> answers after its send on the trigger channel, a step of the update
  checker; \<open>metrics\<close> is the reply of the metrics package.
\<close>

definition admin_mux :: "(string \<Rightarrow> bytes res) \<Rightarrow> (go_error \<Rightarrow> string) \<Rightarrow> ('s \<Rightarrow> string) \<Rightarrow> 's res \<Rightarrow> reply res \<Rightarrow> string \<Rightarrow> reply res option" where
  "admin_mux call err_text print st metrics path =
     (if path = ''/metrics'' then Some metrics
      else if path = ''/crashlog'' then Some (logHandler_ServeHTTP call ''RPC.CrashLog'')
      else if path = ''/consolelog'' then Some (logHandler_ServeHTTP call ''RPC.ConsoleLog'')
      else if path = ''/updatecheck'' then
        Some (Ok \<lparr>reply_code = 200, reply_type = Some ''text/plain'', reply_body = string_bytes ''ok, check /consolelog!''\<rparr>)
      else if path = ''/status'' then Some (status_handler err_text print st)
      else None)"


section \<open>Host names\<close>

text \<open>
  A string is its list of runes, code points as numbers; a byte that is no UTF-8 is the replacement rune.
\<close>

definition dns_rune :: "nat \<Rightarrow> bool" where
  "dns_rune r \<longleftrightarrow> 97 \<le> r \<and> r \<le> 122 \<or> 65 \<le> r \<and> r \<le> 90 \<or> 48 \<le> r \<and> r \<le> 57 \<or> r = 45"

definition cleanForDNS :: "nat list \<Rightarrow> nat list" where
  "cleanForDNS s = map (\<lambda>r. if dns_rune r then r else 45) s"


section \<open>Properties\<close>

text \<open>The ports that are open after a list of effects.\<close>

fun ports :: "nat list \<Rightarrow> event list \<Rightarrow> nat list" where
  "ports op [] = op"
| "ports op (Listen p # evs) = ports (p # op) evs"
| "ports op (Close p # evs) = ports (remove1 p op) evs"
| "ports op (_ # evs) = ports op evs"

lemma ports_append: "ports op (xs @ ys) = ports (ports op xs) ys"
  by (induction op xs rule: ports.induct) auto

lemmas run_defs = runWithNetworking_def run_witness_def ctx_Err_def Let_def

text \<open>
  C23. No listener leaks: whatever fails, when \<open>runWithNetworking\<close> returns, with an error or without, both ports
  that it opened are closed again.
\<close>

theorem listeners_closed:
  assumes "runWithNetworking env = Some (r, evs)" "\<forall>x. r \<noteq> Panic x"
  shows "ports [] evs = []"
  using assms by (cases "re_signer env") (auto simp: run_defs split: res.splits ntp_select.splits if_splits option.splits)

definition demo_run_env :: run_env where
  "demo_run_env = \<lparr>re_addr = Ok ''10.0.0.7'', re_now = 1735689600 * 10 ^ 9, re_cfg = demo_netcfg, re_ntpRounds = take 2 demo_rounds,
     re_ctxErr = None, re_pick = False, re_listenAdmin = Ok (), re_signer = Ok (), re_bastionAddr = [],
     re_listenMain = Ok (), re_omniwitness = Err (Sentinel ''EOF''), re_ctxErrEnd = None\<rparr>"

lemma demo_select: "select_ntp demo_run_env = NtpReady"
  by (simp add: select_ntp_def demo_run_env_def runNTP_def demo_netcfg_def demo_rounds_def ntp_round_def ntp_set_time_def)

lemma demo_run_result: "runWithNetworking demo_run_env = Some (Err (Errorf ''omniwitness.Main failed: %v'' [Sentinel ''EOF'']),
  [SetWitnessStatus ''10.0.0.7'', StartNTP, StartUpdateChecker, Listen 8081, ServeAdmin, Listen 80, WitnessStarted] @
    OmniwitnessMain None # [Close 80, Close 8081])"
  unfolding runWithNetworking_def demo_select by (simp add: demo_run_env_def coldStart_def run_witness_def)

theorem listeners_closed_witness:
  "\<exists>r evs. runWithNetworking demo_run_env = Some (r, evs) \<and> Listen 80 \<in> set evs \<and> ports [] evs = []"
  using listeners_closed [OF demo_run_result] demo_run_result by fastforce

lemma ntp_loop_Ok:
  "ntp_inv st \<Longrightarrow> ntp_loop outs st = (r, st') \<Longrightarrow> (\<forall>x. r \<noteq> Panic x) \<Longrightarrow>
    r = Ok () \<and> ntp_inv st' \<and> ntp_times st' = ntp_times st @ List.map_filter ntp_time outs"
proof (induction outs arbitrary: st)
  case (Cons out outs)
  obtain r1 st1 where o: "ntp_round out st = (r1, st1)" by fastforce
  have r1: "r1 = Ok ()" using Cons.prems(2,3) o
    by (cases r1) (auto simp: ntp_round_def ntp_set_time_def Let_def split: res.splits list.splits prod.splits option.splits if_splits)
  have set: "ntp_set_time t st = (Ok (), st1) \<Longrightarrow> ntp_inv st1 \<and> ntp_times st1 = ntp_times st @ [t]" for t
    using ntp_set_time_inv [OF Cons.prems(1), of t] by auto
  have "ntp_inv st1 \<and> ntp_times st1 = ntp_times st @ (case ntp_time out of None \<Rightarrow> [] | Some t \<Rightarrow> [t])"
    using o Cons.prems(1) set unfolding r1
    by (auto simp: ntp_round_def ntp_time_def split: res.splits list.splits prod.splits option.splits)
  with Cons.IH [of st1] Cons.prems(2,3) o r1 show ?case by (simp add: List.map_filter_simps split: option.splits)
qed (auto simp: List.map_filter_simps)

lemma select_ready:
  assumes "select_ntp env = NtpReady"
  shows "\<exists>st st' out t. runNTP (re_cfg env) = Some st \<and> ntp_loop (re_ntpRounds env) st = (Ok (), st') \<and>
    out \<in> set (re_ntpRounds env) \<and> ntp_time out = Some t \<and> t \<in> set (ntp_times st')"
proof -
  obtain st where st: "runNTP (re_cfg env) = Some st"
    using assms by (cases "runNTP (re_cfg env)") (auto simp: select_ntp_def Let_def split: option.splits)
  obtain r st' where l: "ntp_loop (re_ntpRounds env) st = (r, st')" by fastforce
  have c: "ntp_closed st'" "\<forall>x. r \<noteq> Panic x"
    using assms st l by (auto simp: select_ntp_def Let_def split: option.splits res.splits if_splits)
  have i: "ntp_inv st" "ntp_times st = []" using st by (auto simp: runNTP_def ntp_inv_def split: if_splits)
  from ntp_loop_Ok [OF i(1) l c(2)] have ts: "r = Ok ()" "ntp_inv st'" "ntp_times st' = List.map_filter ntp_time (re_ntpRounds env)"
    using i(2) by simp_all
  then have "ntp_times st' \<noteq> []" using c(1) by (simp add: ntp_inv_def)
  then obtain t where "t \<in> set (ntp_times st')" using hd_in_set by blast
  moreover from this obtain out where "out \<in> set (re_ntpRounds env)" "ntp_time out = Some t"
    unfolding ts(3) by (auto simp: List.map_filter_def)
  ultimately show ?thesis using st l ts(1) by blast
qed

text \<open>
  C22. The witness runs only with a clock: when \<open>omniwitness.Main\<close> is called, NTP is configured and its goroutine has
  set the clock to a valid time from the server in this run, the clock was not unset before, the address has been
  reported and both ports are open; a bastion is used exactly when one is configured.
\<close>

theorem witness_needs_clock:
  assumes "runWithNetworking env = Some (r, pre @ OmniwitnessMain b # post)"
  shows "(\<exists>st st' out t. runNTP (re_cfg env) = Some st \<and> ntp_loop (re_ntpRounds env) st = (Ok (), st') \<and>
      out \<in> set (re_ntpRounds env) \<and> ntp_time out = Some t \<and> t \<in> set (ntp_times st')) \<and>
    \<not> coldStart (re_now env) \<and> (\<exists>addr. re_addr env = Ok addr \<and> SetWitnessStatus addr \<in> set pre) \<and>
    ports [] pre = [80, 8081] \<and> (b = None \<longleftrightarrow> re_bastionAddr env = [])"
proof -
  have run: "select_ntp env = NtpReady \<and> \<not> coldStart (re_now env) \<and>
    (\<exists>addr. re_addr env = Ok addr \<and> SetWitnessStatus addr \<in> set pre) \<and> ports [] pre = [80, 8081] \<and>
    (b = None \<longleftrightarrow> re_bastionAddr env = [])"
    using assms by (auto simp: run_defs append_eq_Cons_conv Cons_eq_append_conv
        split: res.splits ntp_select.splits if_splits option.splits)
  then have "select_ntp env = NtpReady" by blast
  from select_ready [OF this] run show ?thesis by blast
qed

theorem witness_needs_clock_witness:
  "OmniwitnessMain None \<in> set (snd (the (runWithNetworking demo_run_env))) \<and>
    (\<exists>st st'. runNTP demo_netcfg = Some st \<and> ntp_loop (take 2 demo_rounds) st = (Ok (), st') \<and> ntp_times st' \<noteq> [])"
proof -
  have f: "re_cfg demo_run_env = demo_netcfg" "re_ntpRounds demo_run_env = take 2 demo_rounds" by (simp_all add: demo_run_env_def)
  from witness_needs_clock [OF demo_run_result, unfolded f] obtain st st' t where
    "runNTP demo_netcfg = Some st" "ntp_loop (take 2 demo_rounds) st = (Ok (), st')" "t \<in> set (ntp_times st')" by blast
  then show ?thesis using demo_run_result by auto
qed

text \<open>
  Without an NTP server there is no witness: \<open>runNTP\<close> then returns a nil channel, so \<open>runWithNetworking\<close> either
  blocks or returns the error of its context, and starts neither the admin server nor the witness.
\<close>

lemma ntp_disabled_blocks:
  assumes "cfg_NTPServer (re_cfg env) = []" "re_addr env = Ok addr"
  shows "runWithNetworking env = (case re_ctxErr env of None \<Rightarrow> None | Some e \<Rightarrow> Some (Err e, [SetWitnessStatus addr, StartNTP]))"
  using assms by (auto simp: run_defs select_ntp_def runNTP_def split: option.splits)

text \<open>A run in which the witness starts and \<open>omniwitness.Main\<close> returns an error.\<close>

definition omni_fails :: "run_env \<Rightarrow> bool" where
  "omni_fails env \<longleftrightarrow> is_Ok (re_addr env) \<and> select_ntp env = NtpReady \<and> \<not> coldStart (re_now env) \<and> re_listenAdmin env = Ok () \<and>
     re_signer env = Ok () \<and> re_listenMain env = Ok () \<and> (case re_omniwitness env of Err e \<Rightarrow> True | _ \<Rightarrow> False)"

text \<open>
  Every failure of the witness leaves an update checker behind: when \<open>omniwitness.Main\<close> fails \<open>n\<close> times while
  the lease is held, \<open>n\<close> update checkers have been started, each with the same context, which is not done.
\<close>

lemma failures_start_checkers:
  "list_all omni_fails envs \<Longrightarrow> \<exists>evs. run_f envs = Some (Ok (), evs) \<and>
    length (filter ((=) StartUpdateChecker) evs) = length envs \<and> ports [] evs = []"
proof (induction envs)
  case (Cons env envs)
  then obtain evs where evs: "run_f envs = Some (Ok (), evs)" "length (filter ((=) StartUpdateChecker) evs) = length envs"
    "ports [] evs = []" by auto
  from Cons.prems obtain addr e where "re_addr env = Ok addr" "re_omniwitness env = Err e" "omni_fails env"
    by (cases "re_addr env"; cases "re_omniwitness env") (auto simp: omni_fails_def)
  then have "\<exists>b. runWithNetworking env = Some (Err (Errorf ''omniwitness.Main failed: %v'' [e]), [SetWitnessStatus addr, StartNTP,
      StartUpdateChecker, Listen 8081, ServeAdmin, Listen 80, WitnessStarted, OmniwitnessMain b, Close 80, Close 8081])"
    by (simp add: run_defs omni_fails_def)
  with evs show ?case by (auto simp: is_Canceled_def)
qed simp

text \<open>
  The host name of a device is one: \<open>cleanForDNS\<close> keeps the length and gives only letters, digits and hyphens,
  and it changes nothing in a name that has only those.
\<close>

lemma cleanForDNS_clean:
  "list_all dns_rune (cleanForDNS s) \<and> length (cleanForDNS s) = length s \<and> (cleanForDNS s = s \<longleftrightarrow> list_all dns_rune s)"
proof -
  have "list_all dns_rune (cleanForDNS s)" by (auto simp: cleanForDNS_def list_all_iff dns_rune_def)
  moreover have "cleanForDNS s = s \<longleftrightarrow> list_all dns_rune s"
    by (induction s) (auto simp: cleanForDNS_def dns_rune_def)
  ultimately show ?thesis by (simp add: cleanForDNS_def)
qed

end
