(* ===== verification/Boot.thy ===== *)
theory Boot
  imports Demo RunWitness
begin

text \<open>
  The start of the applet, \<open>main.go\<close>: \<open>openStorage\<close>, which lays the slots out on the card, and \<open>main\<close>, which
  checks the version, derives the identities, starts the network and opens the storage, in this order.

  \<open>applet_main\<close> is the body of \<open>main\<close>, and \<open>applet_run\<close> adds its deferred calls. \<open>main\<close> composes the models of the other components; what only it calls (the version and configuration RPCs,
  protobuf) is in the record \<open>boot_env\<close>. Its effects are a list of events in order.
\<close>

section \<open>Opening the storage\<close>

definition slotsPartitionStartBlock :: nat where
  "slotsPartitionStartBlock = 4194304"

definition slotsPartitionLengthBlocks :: nat where
  "slotsPartitionLengthBlocks = 4194304"

definition slotSizeBytes :: nat where
  "slotSizeBytes = 524288"

text \<open>The loop that appends slot lengths: it does not end when the slot length is 0.\<close>

partial_function (option) slot_lengths :: "nat \<Rightarrow> nat \<Rightarrow> nat \<Rightarrow> nat list \<Rightarrow> nat list option" where
  "slot_lengths sl len i acc = (if i < len then slot_lengths sl len (uadd i sl) (acc @ [sl]) else Some acc)"

definition openStorage :: "nat res \<Rightarrow> Partition res option" where
  "openStorage cardInfo =
     (case cardInfo of
        Err e \<Rightarrow> Some (Panic (Exit ''Failed to get cardinfo: %v''))
      | Panic x \<Rightarrow> Some (Panic x)
      | Ok bs \<Rightarrow>
          if bs = 0 then Some (Panic DivideByZero)
          else
            (case slot_lengths (slotSizeBytes div bs) slotsPartitionLengthBlocks 0 [] of
               None \<Rightarrow> None
             | Some sls \<Rightarrow>
                 (case OpenPartition \<lparr>Start = slotsPartitionStartBlock, Length = slotsPartitionLengthBlocks, SlotLengths = sls\<rparr> of
                    Err e \<Rightarrow> Some (Panic (Exit ''Failed to open partition: %v''))
                  | Panic x \<Rightarrow> Some (Panic x)
                  | Ok p \<Rightarrow> Some (Ok p))))"

lemma nblocks_step:
  assumes "0 < sl" "0 < k"
  shows "nblocks sl k = Suc (nblocks sl (k - sl))"
proof -
  have le: "nblocks sl k \<le> Suc m \<longleftrightarrow> nblocks sl (k - sl) \<le> m" for m
    using assms(1) by (auto simp: nblocks_le_iff)
  have "0 < nblocks sl k" using assms by (rule nblocks_pos)
  then show ?thesis using le [of "nblocks sl (k - sl)"] le [of "nblocks sl k - 1"] by linarith
qed

lemma slot_lengths_run:
  assumes "0 < sl" "len + sl \<le> W32"
  shows "slot_lengths sl len i acc = Some (acc @ replicate (nblocks sl (len - i)) sl)"
proof (induction "len - i" arbitrary: i acc rule: less_induct)
  case less
  show ?case
  proof (cases "i < len")
    case True
    then have n: "uadd i sl = i + sl" using assms by (intro uadd_small) linarith
    have "nblocks sl (len - i) = Suc (nblocks sl (len - (i + sl)))"
      using nblocks_step [OF assms(1), of "len - i"] True by simp
    moreover have "slot_lengths sl len (i + sl) (acc @ [sl]) = Some ((acc @ [sl]) @ replicate (nblocks sl (len - (i + sl))) sl)"
      using True assms(1) by (intro less.hyps) simp
    ultimately show ?thesis using True by (subst slot_lengths.simps) (simp add: n)
  next
    case False
    then have "nblocks sl (len - i) = 0" using assms(1) nblocks_le_iff [of sl "len - i" 0] by simp
    with False show ?thesis by (subst slot_lengths.simps) simp
  qed
qed

lemma slot_lengths_zero:
  assumes "slot_lengths sl len i acc = Some y"
  shows "sl = 0 \<longrightarrow> i < W32 \<longrightarrow> len \<le> i"
proof (rule slot_lengths.raw_induct [OF _ assms], intro impI)
  fix loop :: "nat \<Rightarrow> nat \<Rightarrow> nat \<Rightarrow> nat list \<Rightarrow> nat list option" and sl len i acc y
  assume IH: "\<And>sl len i acc y. loop sl len i acc = Some y \<Longrightarrow> sl = 0 \<longrightarrow> i < W32 \<longrightarrow> len \<le> i"
    and body: "(if i < len then loop sl len (uadd i sl) (acc @ [sl]) else Some acc) = Some y" and h: "sl = 0" "i < W32"
  show "len \<le> i"
  proof (rule ccontr)
    assume "\<not> len \<le> i"
    then have "loop sl len i (acc @ [sl]) = Some y" using body h by simp
    from IH [OF this] h \<open>\<not> len \<le> i\<close> show False by simp
  qed
qed

lemma open_slots_replicate:
  "b + n * l < W32 \<Longrightarrow> open_slots b (replicate n l) = map (\<lambda>i. \<lparr>s_start = b + i * l, s_length = l, s_journal = None\<rparr>) [0 ..< n]"
proof (induction n arbitrary: b)
  case (Suc n)
  have "uadd b l = b + l" using Suc.prems by (intro uadd_small) simp
  moreover have "[0 ..< Suc n] = 0 # map Suc [0 ..< n]" by (simp add: upt_conv_Cons map_Suc_upt del: upt_Suc)
  ultimately show ?case using Suc.IH [of "b + l"] Suc.prems by (simp add: add.assoc del: upt_Suc)
qed simp

lemma foldl_uadd_replicate: "a + n * l < W32 \<Longrightarrow> foldl uadd a (replicate n l) = a + n * l"
proof (induction n arbitrary: a)
  case (Suc n)
  have "uadd a l = a + l" using Suc.prems by (intro uadd_small) simp
  with Suc show ?case by simp
qed simp

lemma openStorage_lengths:
  assumes "0 < bs" "bs \<le> slotSizeBytes"
  shows "slot_lengths (slotSizeBytes div bs) slotsPartitionLengthBlocks 0 [] =
    Some (replicate (nblocks (slotSizeBytes div bs) slotsPartitionLengthBlocks) (slotSizeBytes div bs))"
proof -
  have "0 < slotSizeBytes div bs" using assms by (simp add: div_greater_zero_iff)
  moreover have "slotSizeBytes div bs \<le> slotSizeBytes" by simp
  then have "slotsPartitionLengthBlocks + slotSizeBytes div bs \<le> W32"
    unfolding slotsPartitionLengthBlocks_def slotSizeBytes_def W32_def by linarith
  ultimately show ?thesis using slot_lengths_run by simp
qed

text \<open>The slots cover the partition exactly when the slot length divides its length; otherwise they are too long.\<close>

lemma Validate_replicate:
  assumes "0 < sl" "sl \<le> slotSizeBytes"
  shows "Geometry_Validate \<lparr>Start = st, Length = slotsPartitionLengthBlocks,
      SlotLengths = replicate (nblocks sl slotsPartitionLengthBlocks) sl\<rparr> = Ok () \<longleftrightarrow> sl dvd slotsPartitionLengthBlocks"
proof -
  let ?n = "nblocks sl slotsPartitionLengthBlocks" and ?L = slotsPartitionLengthBlocks
  have ge: "?L \<le> ?n * sl" using nblocks_le_iff [OF assms(1), of ?L ?n] by simp
  have "?n * sl \<le> ?L + sl - 1" by (simp add: nblocks_def)
  then have "?n * sl < W32" using assms(2) by (simp add: slotsPartitionLengthBlocks_def slotSizeBytes_def W32_def)
  then have sum: "foldl uadd 0 (replicate ?n sl) = ?n * sl" using foldl_uadd_replicate [of 0 ?n sl] by simp
  have "?n * sl = ?L \<longleftrightarrow> sl dvd ?L"
  proof
    assume "sl dvd ?L"
    then obtain k where "?L = k * sl" by (metis dvd_def mult.commute)
    then show "?n * sl = ?L" using nblocks_mult [OF assms(1), of k] by simp
  qed (metis dvd_triv_right)
  with ge show ?thesis by (auto simp: Geometry_Validate_def sum)
qed

lemma openStorage_layout_ex: "\<exists>pt. openStorage (Ok 512) = Some (Ok pt)"
  using Validate_replicate [of 1024 slotsPartitionStartBlock] openStorage_lengths [of 512]
  by (simp add: openStorage_def OpenPartition_def slotSizeBytes_def) (simp add: slotsPartitionLengthBlocks_def)

text \<open>
  C27. On the card's 512-byte blocks the storage is 4096 slots of 1024 blocks, back to back from block 0x400000; the
  slots fill the partition exactly, and its last byte is the last that 32-bit byte offsets reach.
\<close>

theorem openStorage_layout:
  "\<exists>pt. openStorage (Ok 512) = Some (Ok pt) \<and>
    p_slots pt = map (\<lambda>i. \<lparr>s_start = 4194304 + i * 1024, s_length = 1024, s_journal = None\<rparr>) [0 ..< 4096] \<and>
    (slotsPartitionStartBlock + slotsPartitionLengthBlocks) * 512 = W32"
proof -
  have "nblocks 1024 slotsPartitionLengthBlocks = 4096" by (simp add: nblocks_def slotsPartitionLengthBlocks_def)
  then have l: "slot_lengths (slotSizeBytes div 512) slotsPartitionLengthBlocks 0 [] = Some (replicate 4096 1024)"
    using openStorage_lengths [of 512] by (simp add: slotSizeBytes_def)
  have "Geometry_Validate \<lparr>Start = slotsPartitionStartBlock, Length = slotsPartitionLengthBlocks, SlotLengths = replicate 4096 1024\<rparr> = Ok ()"
    using Validate_replicate [of 1024] \<open>nblocks 1024 _ = 4096\<close>
    by (simp add: slotSizeBytes_def) (simp add: slotsPartitionLengthBlocks_def)
  moreover have "open_slots slotsPartitionStartBlock (replicate 4096 1024) =
      map (\<lambda>i. \<lparr>s_start = 4194304 + i * 1024, s_length = 1024, s_journal = None\<rparr>) [0 ..< 4096]"
    by (subst open_slots_replicate) (simp_all add: slotsPartitionStartBlock_def W32_def)
  ultimately show ?thesis using l
    by (simp add: openStorage_def OpenPartition_def slotsPartitionStartBlock_def slotsPartitionLengthBlocks_def W32_def)
qed

text \<open>
  C28. For which block sizes the storage opens: those whose number of blocks in a slot divides the partition. Other
  block sizes up to the slot size end the applet with an error, 0 makes it panic, and larger ones make it
  append empty slots for ever.
\<close>

theorem openStorage_ends:
  "(openStorage (Ok bs) = None \<longleftrightarrow> slotSizeBytes < bs) \<and>
    ((\<exists>pt. openStorage (Ok bs) = Some (Ok pt)) \<longleftrightarrow>
      0 < bs \<and> bs \<le> slotSizeBytes \<and> slotSizeBytes div bs dvd slotsPartitionLengthBlocks)"
proof -
  consider "bs = 0" | "slotSizeBytes < bs" | "0 < bs" "bs \<le> slotSizeBytes" by linarith
  then show ?thesis
  proof cases
    case 1
    then show ?thesis by (simp add: openStorage_def)
  next
    case 2
    then have "slotSizeBytes div bs = 0" by simp
    moreover have "slot_lengths 0 slotsPartitionLengthBlocks 0 [] = None"
      using slot_lengths_zero [of 0 slotsPartitionLengthBlocks 0 "[]"]
      by (cases "slot_lengths 0 slotsPartitionLengthBlocks 0 []") (auto simp: slotsPartitionLengthBlocks_def)
    ultimately show ?thesis using 2 by (simp add: openStorage_def)
  next
    case 3
    let ?sl = "slotSizeBytes div bs"
    have sl: "0 < ?sl" "?sl \<le> slotSizeBytes" using 3 by (simp_all add: div_greater_zero_iff)
    have "openStorage (Ok bs) \<noteq> None" "(\<exists>pt. openStorage (Ok bs) = Some (Ok pt)) \<longleftrightarrow> ?sl dvd slotsPartitionLengthBlocks"
      using 3 Validate_replicate [OF sl, of slotsPartitionStartBlock]
      by (auto simp: openStorage_def openStorage_lengths OpenPartition_def split: res.splits)
    then show ?thesis using 3 by auto
  qed
qed


section \<open>The start\<close>

datatype boot_event =
    RpcVersion string
  | RpcConfig
  | RpcStatus
  | RpcLED bool
  | DeriveIdentityKeys
  | RpcSetWitnessStatus string string string string
  | StartBlinking
  | StartNetworking
  | RpcAddress "bytes option"
  | StartEventHandler
  | OpenStorage
  | InitPersistence
  | RunDHCP string "nat list"
  | RunStatic
  | AppletExit

record ('r, 's, 'd) boot_env =
  boot_Version :: string
  rpc_Version :: "string \<Rightarrow> unit res"
  rpc_Config :: "go_error option \<times> bytes"
  proto_Unmarshal :: "bytes \<Rightarrow> Configuration \<Rightarrow> Configuration res"
  boot_keys :: "('r, 's) key_env"
  boot_net :: net_env
  boot_CardInfo :: "nat res"
  boot_dev :: "nat \<Rightarrow> 'd BlockReaderWriter"
  boot_codec :: codec
  note_VerifierName :: "string \<Rightarrow> nat list res"

definition defaultConfig :: Configuration where
  "defaultConfig = \<lparr>cfg_DHCP = True, cfg_IP = ''10.0.0.1'', cfg_Netmask = ''255.255.255.0'', cfg_Gateway = ''10.0.0.2'',
     cfg_Resolver = ''8.8.8.8:53'', cfg_NTPServer = ''time.google.com''\<rparr>"

definition TrimPrefix :: "string \<Rightarrow> string \<Rightarrow> string" where
  "TrimPrefix s pre = (if take (length pre) s = pre then drop (length pre) s else s)"

definition armoredwitness :: "nat list" where
  "armoredwitness = map of_char ''armoredwitness''"

text \<open>The state in which the applet runs: its persistence, its identities, its network and its configuration.\<close>

record running =
  run_persistence :: SlotPersistence
  run_keys :: key_vars
  run_net :: net_vars
  run_cfg :: Configuration

text \<open>The last stage of \<open>main\<close>: it runs \<open>runWithNetworking\<close> for ever, under a lease or with the static address.\<close>

definition main_run :: "('r, 's, 'd) boot_env \<Rightarrow> Configuration \<Rightarrow> key_vars \<Rightarrow> Status \<Rightarrow> boot_event" where
  "main_run env cfg g status =
     (if cfg_DHCP cfg
      then RunDHCP (''AW-'' @ Serial status)
        (case note_VerifierName env (witnessPublicKey g) of Ok n \<Rightarrow> cleanForDNS n | _ \<Rightarrow> armoredwitness)
      else RunStatic)"

text \<open>The stage that opens the storage: \<open>None\<close> when the loop of \<open>openStorage\<close> does not end.\<close>

definition main_storage :: "('r, 's, 'd) boot_env \<Rightarrow> 'd \<Rightarrow> Configuration \<Rightarrow> key_vars \<Rightarrow> net_vars \<Rightarrow> Status \<Rightarrow>
    (running res \<times> boot_event list) option" where
  "main_storage env d cfg g v status =
     (case openStorage (boot_CardInfo env) of
        None \<Rightarrow> None
      | Some (Panic x) \<Rightarrow> Some (Panic x, [OpenStorage])
      | Some (Err e) \<Rightarrow> Some (Err e, [OpenStorage])
      | Some (Ok pt) \<Rightarrow>
          (case Init (boot_dev env (the_ok (boot_CardInfo env))) (boot_codec env) d (NewSlotPersistence pt) of
             (Err e, p) \<Rightarrow> Some (Panic (Exit ''Failed to create persistence layer: %v''), [OpenStorage, InitPersistence])
           | (Panic x, p) \<Rightarrow> Some (Panic x, [OpenStorage, InitPersistence])
           | (Ok _, p) \<Rightarrow>
               Some (Ok \<lparr>run_persistence = p, run_keys = g, run_net = v, run_cfg = cfg\<rparr>,
                 [OpenStorage, InitPersistence, main_run env cfg g status])))"

text \<open>The stage that derives the identities and starts the network.\<close>

definition main_identity :: "('r, 's, 'd) boot_env \<Rightarrow> 'd \<Rightarrow> Configuration \<Rightarrow> key_vars \<Rightarrow> net_vars \<Rightarrow> Status \<Rightarrow>
    (running res \<times> boot_event list) option" where
  "main_identity env d cfg g v status =
     (case deriveIdentityKeys (boot_keys env) g of
        (Err e, g') \<Rightarrow> Some (Err e, [RpcLED True, DeriveIdentityKeys])
      | (Panic x, g') \<Rightarrow> Some (Panic x, [RpcLED True, DeriveIdentityKeys])
      | (Ok _, g') \<Rightarrow>
          (let evs = [RpcLED True, DeriveIdentityKeys,
                 RpcSetWitnessStatus (witnessPublicKey g') (attestPublicKey g') (witnessPublicKeyAttestation g') (bastionIDAttestation g'),
                 StartBlinking, StartNetworking]
           in case startNetworking (boot_net env) cfg v of
                (Err e, v') \<Rightarrow> Some (Panic (Exit ''TA could not initialize networking, %v''), evs)
              | (Panic x, v') \<Rightarrow> Some (Panic x, evs)
              | (Ok _, v') \<Rightarrow>
                  (case main_storage env d cfg g' v' status of
                     None \<Rightarrow> None
                   | Some (r, evs') \<Rightarrow> Some (r, evs @ [RpcAddress (nicMAC v'), StartEventHandler] @ evs'))))"

text \<open>
  \<open>main\<close>, on the variables of the packages and a device. The first thing it does is the version check; an error of
  the configuration RPC is only logged.
\<close>

definition applet_main :: "('r, 's, 'd) boot_env \<Rightarrow> 'd \<Rightarrow> key_vars \<Rightarrow> net_vars \<Rightarrow> (running res \<times> boot_event list) option" where
  "applet_main env d g v =
     (let version = TrimPrefix (boot_Version env) ''v''
      in case rpc_Version env version of
           Err e \<Rightarrow> Some (Panic (Exit ''TA version check error for version %q: %v''), [RpcVersion version])
         | Panic x \<Rightarrow> Some (Panic x, [RpcVersion version])
         | Ok _ \<Rightarrow>
             (let cfgResp = snd (rpc_Config env)
              in case (if cfgResp \<noteq> [] then proto_Unmarshal env cfgResp defaultConfig else Ok defaultConfig) of
                   Err e \<Rightarrow> Some (Panic (Exit ''TA configuration invalid: %v''), [RpcVersion version, RpcConfig])
                 | Panic x \<Rightarrow> Some (Panic x, [RpcVersion version, RpcConfig])
                 | Ok cfg \<Rightarrow>
                     (case rpc_Status (boot_keys env) of
                        Err e \<Rightarrow> Some (Panic (Exit ''TA status error, %v''), [RpcVersion version, RpcConfig, RpcStatus])
                      | Panic x \<Rightarrow> Some (Panic x, [RpcVersion version, RpcConfig, RpcStatus])
                      | Ok status \<Rightarrow>
                          (case main_identity env d cfg g v status of
                             None \<Rightarrow> None
                           | Some (r, evs) \<Rightarrow> Some (r, [RpcVersion version, RpcConfig, RpcStatus] @ evs)))))"

text \<open>
  How the applet ends. \<open>os.Exit\<close>, behind \<open>log.Fatalf\<close> and \<open>klog.Exitf\<close>, runs no deferred call; the runtime then
  calls \<open>applet.Exit\<close>. A panic runs the deferred calls: the LED is switched off, if \<open>main\<close> came that far, and the
  applet exits.
\<close>

definition runtime_Exit :: "boot_event list" where
  "runtime_Exit = [AppletExit]"

definition main_deferred :: "running res \<Rightarrow> boot_event list \<Rightarrow> boot_event list" where
  "main_deferred r evs =
     (case r of
        Ok st \<Rightarrow> []
      | Panic (Exit msg) \<Rightarrow> runtime_Exit
      | _ \<Rightarrow> (if RpcLED True \<in> set evs then [RpcLED False] else []) @ [AppletExit])"

definition applet_run :: "('r, 's, 'd) boot_env \<Rightarrow> 'd \<Rightarrow> key_vars \<Rightarrow> net_vars \<Rightarrow> (running res \<times> boot_event list) option" where
  "applet_run env d g v = map_option (\<lambda>(r, evs). (r, evs @ main_deferred r evs)) (applet_main env d g v)"

lemmas boot_defs = applet_main_def main_identity_def main_storage_def main_run_def Let_def


section \<open>The storage of a fresh card\<close>

definition storage_geo :: Geometry where
  "storage_geo = \<lparr>Start = slotsPartitionStartBlock, Length = slotsPartitionLengthBlocks, SlotLengths = replicate 4096 1024\<rparr>"

lemma openStorage_geo: "openStorage (Ok 512) = Some (Ok pt) \<longleftrightarrow> OpenPartition storage_geo = Ok pt"
proof -
  have "nblocks 1024 slotsPartitionLengthBlocks = 4096" by (simp add: nblocks_def slotsPartitionLengthBlocks_def)
  then have "slot_lengths (slotSizeBytes div 512) slotsPartitionLengthBlocks 0 [] = Some (replicate 4096 1024)"
    using openStorage_lengths [of 512] by (simp add: slotSizeBytes_def)
  then show ?thesis by (auto simp: openStorage_def storage_geo_def split: res.splits)
qed

lemma storage_geo_ok: "8388608 \<le> N \<Longrightarrow> geo_ok 512 N storage_geo"
  by (simp add: geo_ok_def storage_geo_def slotsPartitionStartBlock_def slotsPartitionLengthBlocks_def entryHeaderSize_def
      W32_def list_all_iff sum_list_replicate)

lemma fresh_storage:
  assumes "card_rpc rpc 512 cblocks cok" "directory_codec cx" "cok d" "8388608 \<le> length (cblocks d)"
    and "\<forall>b \<in> set (jregion (cblocks d) slotsPartitionStartBlock slotsPartitionLengthBlocks). no_magic b"
  shows "\<exists>pt p. openStorage (Ok 512) = Some (Ok pt) \<and> Init (MmcDevice rpc 512) cx d (NewSlotPersistence pt) = (Ok (), p) \<and>
    pers_reach (MmcDevice rpc 512) cblocks cok cx storage_geo d p Map.empty {} \<and> set (freeSlots p) = {1 ..< 4096} \<and>
    directoryWriteToken p = 0 \<and> idToSlot p = []"
proof -
  obtain pt where pt: "openStorage (Ok 512) = Some (Ok pt)" using openStorage_layout_ex by blast
  have geo: "geo_ok (BlockSize (MmcDevice rpc 512)) (length (cblocks d)) storage_geo" using storage_geo_ok assms(4) by simp
  have n: "SlotLengths storage_geo \<noteq> []" "length (SlotLengths storage_geo) < W32" "length (SlotLengths storage_geo) = 4096"
    by (simp_all add: storage_geo_def W32_def)
  have blank: "\<forall>b \<in> set (jregion (cblocks d) (Start storage_geo) (Length storage_geo)). no_magic b"
    using assms(5) by (simp add: storage_geo_def)
  have o: "OpenPartition storage_geo = Ok pt" using pt by (simp add: openStorage_geo)
  from persistence.fresh_Init [OF persistence.intro [OF card_rpc.mmc_device [OF assms(1)] assms(2)] assms(3) geo n(1,2) blank o]
  show ?thesis using pt unfolding n(3) by blast
qed


section \<open>Properties\<close>

text \<open>
  C14. The version check comes first: \<open>main\<close> sends the version, without its leading \<open>v\<close>, before anything else, and
  if the OS does not accept it that call is all it does. No key is derived and no storage is opened then.
\<close>

theorem version_first:
  assumes "applet_main env d g v = Some (r, evs)"
  shows "\<exists>rest. evs = RpcVersion (TrimPrefix (boot_Version env) ''v'') # rest \<and>
    (rest = [] \<longleftrightarrow> rpc_Version env (TrimPrefix (boot_Version env) ''v'') \<noteq> Ok ()) \<and> (rest = [] \<longrightarrow> is_Panic r)"
  using assms by (auto simp: applet_main_def Let_def split: res.splits option.splits if_splits)

text \<open>
  C13. When the applet runs, and in which order it got there. \<open>main\<close> reaches its running state exactly when the OS
  accepts the version, the configuration can be decoded, the OS reports its status, the identities are derived, the
  network starts, the storage opens and the persistence is initialised on it. These calls come in this order,
  and the identities are reported to the OS before the network is touched.
\<close>

theorem boot_order:
  "applet_main env d g v = Some (Ok st, evs) \<longleftrightarrow>
    (\<exists>status pt. rpc_Version env (TrimPrefix (boot_Version env) ''v'') = Ok () \<and>
      (if snd (rpc_Config env) = [] then Ok defaultConfig else proto_Unmarshal env (snd (rpc_Config env)) defaultConfig) =
        Ok (run_cfg st) \<and>
      rpc_Status (boot_keys env) = Ok status \<and>
      deriveIdentityKeys (boot_keys env) g = (Ok (), run_keys st) \<and>
      startNetworking (boot_net env) (run_cfg st) v = (Ok (), run_net st) \<and>
      openStorage (boot_CardInfo env) = Some (Ok pt) \<and>
      Init (boot_dev env (the_ok (boot_CardInfo env))) (boot_codec env) d (NewSlotPersistence pt) = (Ok (), run_persistence st) \<and>
      evs = [RpcVersion (TrimPrefix (boot_Version env) ''v''), RpcConfig, RpcStatus, RpcLED True, DeriveIdentityKeys,
        RpcSetWitnessStatus (witnessPublicKey (run_keys st)) (attestPublicKey (run_keys st))
          (witnessPublicKeyAttestation (run_keys st)) (bastionIDAttestation (run_keys st)),
        StartBlinking, StartNetworking, RpcAddress (nicMAC (run_net st)), StartEventHandler, OpenStorage, InitPersistence,
        main_run env (run_cfg st) (run_keys st) status])" (is "?run \<longleftrightarrow> ?good")
proof
  assume ?run
  then show ?good
    by (auto simp: applet_main_def main_identity_def main_storage_def Let_def split: res.splits option.splits prod.splits if_splits)
next
  assume ?good
  then show ?run
    by (cases st) (auto simp: applet_main_def main_identity_def main_storage_def Let_def split: if_splits)
qed


text \<open>
  C40. A device that is started again finds its checkpoints. After any run of the storage, with concurrent, refused and
  failed updates, failed writes of the directory and earlier restarts, and under the same conditions on the
  OS, the keys and the network, \<open>main\<close> reaches its running state; \<open>Latest\<close> then returns, for every log of the
  directory that was last stored, what was last written to its slot, and finds no other log.
\<close>

theorem reboot_recovers:
  assumes "rpc_Version env (TrimPrefix (boot_Version env) ''v'') = Ok ()" "snd (rpc_Config env) = []"
    and "rpc_Status (boot_keys env) = Ok status" "deriveIdentityKeys (boot_keys env) g = (Ok (), g')"
    and "startNetworking (boot_net env) defaultConfig v = (Ok (), v')"
    and "boot_CardInfo env = Ok 512" "boot_dev env 512 = MmcDevice rpc 512"
    and "card_rpc rpc 512 cblocks cok" "directory_codec (boot_codec env)"
    and "pers_run (MmcDevice rpc 512) cblocks cok (boot_codec env) storage_geo d p R M D W"
  shows "\<exists>st evs. applet_main env d g v = Some (Ok st, evs) \<and>
    pers_run (MmcDevice rpc 512) cblocks cok (boot_codec env) storage_geo d (run_persistence st) R D D {} \<and>
    (\<forall>origin. fst (Latest (MmcDevice rpc 512) (boot_codec env) d (run_persistence st) origin) =
      latest_of (boot_codec env) (map_option ((!) R) (D (logfmt_ID (boot_codec env) origin))))"
proof -
  note P = persistence.intro [OF card_rpc.mmc_device [OF assms(8)] assms(9)]
  from persistence.restart_run [OF P assms(10)] obtain pt p' where
    p: "OpenPartition storage_geo = Ok pt" "Init (MmcDevice rpc 512) (boot_codec env) d (NewSlotPersistence pt) = (Ok (), p')"
      "pers_run (MmcDevice rpc 512) cblocks cok (boot_codec env) storage_geo d p' R D D {}" by blast
  have "openStorage (Ok 512) = Some (Ok pt)" using p(1) by (simp add: openStorage_geo)
  moreover have "\<forall>origin. fst (Latest (MmcDevice rpc 512) (boot_codec env) d p' origin) =
      latest_of (boot_codec env) (map_option ((!) R) (D (logfmt_ID (boot_codec env) origin)))"
    using persistence.run_recover [OF P p(3)] by blast
  ultimately show ?thesis using assms(1-7) p(2,3) by (simp add: applet_main_def main_identity_def main_storage_def)
qed

text \<open>
  However the applet ends, exiting is the last thing it does; and a panic after the LED was switched on switches it off
  before.
\<close>

lemma applet_exits:
  assumes "applet_run env d g v = Some (r, evs)" "\<forall>st. r \<noteq> Ok st"
  shows "last evs = AppletExit \<and> (is_Panic r \<longrightarrow> (\<forall>msg. r \<noteq> Panic (Exit msg)) \<longrightarrow> RpcLED True \<in> set evs \<longrightarrow> RpcLED False \<in> set evs)"
proof -
  from assms(1) obtain b where b: "evs = b @ main_deferred r b" by (auto simp: applet_run_def)
  show ?thesis
  proof (cases r)
    case (Panic x)
    then show ?thesis by (cases x) (simp_all add: b main_deferred_def runtime_Exit_def)
  qed (use assms(2) in \<open>simp_all add: b main_deferred_def\<close>)
qed

text \<open>A device for the witnesses, with a blank card of 4 GiB.\<close>

definition blank_card :: card where
  "blank_card = \<lparr>card_data = replicate 8388608 (replicate 512 0), card_faults = []\<rparr>"

definition demo_boot :: "(bytes, string, card) boot_env" where
  "demo_boot = \<lparr>boot_Version = ''v1.2.3'', rpc_Version = (\<lambda>s. if s = ''1.2.3'' then Ok () else Err (Sentinel ''rollback'')),
     rpc_Config = (None, []), proto_Unmarshal = (\<lambda>b cfg. Ok cfg), boot_keys = demo_env (demo_status 1), boot_net = demo_net,
     boot_CardInfo = Ok 512, boot_dev = MmcDevice (card_os 512), boot_codec = line_codec,
     note_VerifierName = (\<lambda>s. Ok (map of_char s))\<rparr>"

lemma demo_start: "\<exists>v. startNetworking demo_net defaultConfig no_net = (Ok (), v)"
proof -
  obtain m where "ParseMAC (mac (Serial (demo_status 1))) = Ok m" using mac_parses by blast
  then show ?thesis by (simp add: startNetworking_def start_dhcp_def demo_net_def defaultConfig_def)
qed

lemma blank_card_ok: "card_good 512 blank_card" "length (card_data blank_card) = 8388608"
  "\<forall>b \<in> set (jregion (card_data blank_card) s n). no_magic b"
proof -
  show "card_good 512 blank_card" "length (card_data blank_card) = 8388608"
    by (simp_all add: card_good_def card_ok_def blank_card_def list_all_iff W32_def)
  show "\<forall>b \<in> set (jregion (card_data blank_card) s n). no_magic b"
    by (auto simp: jregion_def blank_card_def intro!: zero_no_magic dest!: in_set_takeD in_set_dropD)
qed


theorem version_first_witness:
  "\<exists>rest. applet_main (demo_boot\<lparr>boot_Version := ''v1.0.0''\<rparr>) blank_card no_keys no_net =
    Some (Panic (Exit ''TA version check error for version %q: %v''), RpcVersion ''1.0.0'' # rest) \<and> rest = []"
proof -
  have "applet_main (demo_boot\<lparr>boot_Version := ''v1.0.0''\<rparr>) blank_card no_keys no_net =
    Some (Panic (Exit ''TA version check error for version %q: %v''), [RpcVersion ''1.0.0''])"
    by (simp add: applet_main_def demo_boot_def TrimPrefix_def)
  from version_first [OF this] this show ?thesis by auto
qed

theorem boot_order_witness:
  "\<exists>st evs pt. applet_main demo_boot blank_card no_keys no_net = Some (Ok st, evs) \<and> openStorage (Ok 512) = Some (Ok pt) \<and>
    Init (MmcDevice (card_os 512) 512) line_codec blank_card (NewSlotPersistence pt) = (Ok (), run_persistence st)"
proof -
  obtain g v where "deriveIdentityKeys (demo_env (demo_status 1)) no_keys = (Ok (), g)"
    "startNetworking demo_net defaultConfig no_net = (Ok (), v)" using demo_keys demo_start by metis
  moreover have "card_rpc (card_os 512) 512 card_data (card_good 512)" by (rule card_good_rpc) (simp_all add: MaxTransferBytes_def)
  from fresh_storage [OF this lines.directory_codec_axioms blank_card_ok(1) _ blank_card_ok(3)] obtain pt p where
    "openStorage (Ok 512) = Some (Ok pt)" "Init (MmcDevice (card_os 512) 512) line_codec blank_card (NewSlotPersistence pt) = (Ok (), p)"
    by (auto simp: blank_card_ok(2))
  moreover have "rpc_Status (demo_env (demo_status 1)) = Ok (demo_status 1)" by (simp add: demo_env_def)
  ultimately have "\<exists>st evs. applet_main demo_boot blank_card no_keys no_net = Some (Ok st, evs)"
    by (simp add: applet_main_def main_identity_def main_storage_def demo_boot_def TrimPrefix_def Let_def)
  then obtain st evs where st: "applet_main demo_boot blank_card no_keys no_net = Some (Ok st, evs)" by blast
  from boot_order [THEN iffD1, OF st] st show ?thesis by (auto simp: demo_boot_def)
qed

text \<open>The first update on the new device.\<close>

lemma demo_first_update:
  "\<exists>d p R M W. pers_run (MmcDevice (card_os 512) 512) card_data (card_good 512) line_codec storage_geo d p R M M W \<and>
    map_option (\<lambda>i. fst (R ! i)) (M ''61'') = Some (marshalCheckpoint demo_cp)"
proof -
  let ?dev = "MmcDevice (card_os 512) 512"
  have c: "card_rpc (card_os 512) 512 card_data (card_good 512)" by (rule card_good_rpc) (simp_all add: MaxTransferBytes_def)
  note P = persistence.intro [OF card_rpc.mmc_device [OF c] lines.directory_codec_axioms]
  from fresh_storage [OF c lines.directory_codec_axioms blank_card_ok(1) _ blank_card_ok(3)] obtain p where
    p: "pers_reach ?dev card_data (card_good 512) line_codec storage_geo blank_card p Map.empty {}" "set (freeSlots p) = {1 ..< 4096}"
      "directoryWriteToken p = 0" "idToSlot p = []" by (auto simp: blank_card_ok(2))
  obtain f fs where f: "freeSlots p = f # fs" using p(2) by (cases "freeSlots p") auto
  then have "f \<in> {1 ..< 4096}" unfolding p(2) [symmetric] by simp
  then have f4: "f < 4096" by simp
  have "\<exists>d' p'. Update ?dev line_codec blank_card p ''a'' (\<lambda>_. Ok demo_cp) = (Ok (), d', p')"
  proof (rule persistence.Update_live [OF P p(1) card_reliable refl, where cur = "[]" and new = demo_cp])
    show "Map.empty (logfmt_ID line_codec ''a'') = None \<Longrightarrow> freeSlots p \<noteq> [] \<and> entryHeaderSize +
        length (dir_bytes line_codec (AList.update (logfmt_ID line_codec ''a'') (hd (freeSlots p)) (idToSlot p))) \<le>
      SlotLengths storage_geo ! 0 * BlockSize ?dev div minEntries"
      using f4 by (simp add: f p(4) demo_id storage_geo_def entryHeaderSize_def minEntries_def dir_bytes_def line_codec_def)
  qed (simp_all add: p(3) unmarshalCheckpoint_def rawRecordMagic_def lines.checkpoint_empty storage_geo_def
      entryHeaderSize_def marshalCheckpoint_def demo_cp_def minEntries_def)
  then obtain d' p' where u: "Update ?dev line_codec blank_card p ''a'' (\<lambda>_. Ok demo_cp) = (Ok (), d', p')" by blast
  have safe: "safe_data 512 (marshalCheckpoint demo_cp)"
    by (simp add: safe_data_def entryHeaderSize_def marshalCheckpoint_def rawRecordMagic_def demo_cp_def chunks.simps)
  from persistence.Update_reach [OF P p(1) u _ demo_id [symmetric]] p(3) safe obtain rv W where
    "pers_reach ?dev card_data (card_good 512) line_codec storage_geo d' p' [''61'' \<mapsto> (marshalCheckpoint demo_cp, rv)] W" by auto
  from persistence.pers_reach_run [OF P this] obtain R M where
    r: "pers_run ?dev card_data (card_good 512) line_codec storage_geo d' p' R M M W"
      "[''61'' \<mapsto> (marshalCheckpoint demo_cp, rv)] = reg_of R M" by blast
  from fun_cong [OF r(2), of "''61''"] have "map_option (\<lambda>i. fst (R ! i)) (M ''61'') = Some (marshalCheckpoint demo_cp)"
    by (cases "M ''61''") (auto simp: reg_of_def dest: sym)
  with r(1) show ?thesis by blast
qed

theorem reboot_recovers_witness:
  "\<exists>d st evs. applet_main demo_boot d no_keys no_net = Some (Ok st, evs) \<and>
    fst (Latest (MmcDevice (card_os 512) 512) line_codec d (run_persistence st) ''a'') = Ok demo_cp"
proof -
  obtain g where g: "deriveIdentityKeys (boot_keys demo_boot) no_keys = (Ok (), g)"
    using demo_keys [of "demo_status 1" no_keys] by (auto simp: demo_boot_def)
  obtain v where v: "startNetworking (boot_net demo_boot) defaultConfig no_net = (Ok (), v)"
    using demo_start by (auto simp: demo_boot_def)
  have c: "card_rpc (card_os 512) 512 card_data (card_good 512)" by (rule card_good_rpc) (simp_all add: MaxTransferBytes_def)
  have b: "boot_codec demo_boot = line_codec" "rpc_Version demo_boot (TrimPrefix (boot_Version demo_boot) ''v'') = Ok ()"
    "snd (rpc_Config demo_boot) = []" "rpc_Status (boot_keys demo_boot) = Ok (demo_status 1)" "boot_CardInfo demo_boot = Ok 512"
    "boot_dev demo_boot 512 = MmcDevice (card_os 512) 512" by (simp_all add: demo_boot_def TrimPrefix_def demo_env_def)
  have cx: "directory_codec (boot_codec demo_boot)" unfolding b(1) by (rule lines.directory_codec_axioms)
  from demo_first_update obtain d p R M W where
    r: "pers_run (MmcDevice (card_os 512) 512) card_data (card_good 512) (boot_codec demo_boot) storage_geo d p R M M W"
      "map_option (\<lambda>i. fst (R ! i)) (M ''61'') = Some (marshalCheckpoint demo_cp)" unfolding b(1) by blast
  from reboot_recovers [OF b(2-4) g v b(5,6) c cx r(1)] obtain st evs where
    st: "applet_main demo_boot d no_keys no_net = Some (Ok st, evs)"
      "fst (Latest (MmcDevice (card_os 512) 512) line_codec d (run_persistence st) ''a'') =
        latest_of line_codec (map_option ((!) R) (M ''61''))" unfolding b(1) demo_id [symmetric] by blast
  have "latest_of line_codec (map_option ((!) R) (M ''61'')) = Ok demo_cp"
    using r(2) by (auto simp: latest_of_def marshalCheckpoint_def rawRecordMagic_def unmarshalCheckpoint_def split: prod.split)
  with st show ?thesis by auto
qed

end
