(* ===== verification/Spec2Isabelle.thy ===== *)
theory Spec2Isabelle
  imports StorageLimits UpdateChecker Lease Boot
begin

text \<open>
  A verification of the trusted applet of the Armored Witness, \<open>src/trusted_applet\<close>: a Go program for a bare-metal
  32-bit ARM device that runs a witness for transparency logs. The applet keeps the last checkpoint of each log on
  an eMMC card, so that it never signs an older or a forked one; it derives its keys from the hardware,
  gets an address by DHCP and the time by NTP, runs the witness while it has them, and looks for firmware updates.

  \<^bold>\<open>The parts and their theories\<close>

  \<^item> \<open>Prelude\<close>, \<open>Fmt\<close>, \<open>Sha256\<close>: values of the language. Errors and panics are values (\<open>Ok\<close>, \<open>Err\<close>, \<open>Panic\<close>),
    \<open>uint\<close> is a number below \<open>2 ^ 32\<close> with the wrap-around written out, bytes are 8-bit words, SHA-256 is
    executable.
  \<^item> \<open>Device\<close>, \<open>Mmc\<close>: block devices. The locale \<open>block_device\<close> is the interface \<open>BlockReaderWriter\<close> of
    \<open>slots/journal.go\<close>, with what its users rely on: a failed write has written a prefix. \<open>testonly/memdev.go\<close> and
    \<open>mmc/internal.go\<close> implement it; the second is proved from the laws of the block RPCs (\<open>card_rpc\<close>), which a
    card with a fault plan meets.
  \<^item> \<open>Entry\<close>, \<open>Journal\<close>, \<open>JournalRecovery\<close>, \<open>JournalSpec\<close>: \<open>slots/journal.go\<close>. The record and its encoding, the
    journal's operations, the invariant of the blocks of a journal (\<open>region_inv\<close>) and of the journal in memory
    (\<open>journal_inv\<close>), and that successful and failed updates keep them.
  \<^item> \<open>Slots\<close>: \<open>slots/slots.go\<close>. A partition of slots refines a list of registers.
  \<^item> \<open>Persistence\<close>, \<open>PersistenceSpec\<close>: \<open>storage/persistence.go\<close>. The directory of logs and their checkpoints; the
    relation \<open>pers_reach\<close> interleaves updates at the point where the code holds no lock, and the locale
    \<open>directory_codec\<close> says what is needed of YAML.
  \<^item> \<open>Demo\<close>, \<open>StorageLimits\<close>: a run of the storage for the witnesses, and what the storage does not give.
  \<^item> \<open>UpdateClient\<close>, \<open>FwUpdate\<close>, \<open>UpdateChecker\<close>: \<open>internal/update/rpc/update_client.go\<close>, \<open>update.go\<close> and
    \<open>updateChecker\<close> of \<open>main.go\<close>. How firmware is sent, which keys it needs, and the goroutines that look for it.
  \<^item> \<open>Keys\<close>: \<open>key.go\<close>. The derived identities and their attestations.
  \<^item> \<open>Net\<close>, \<open>NetStart\<close>, \<open>Lease\<close>: \<open>net.go\<close> and \<open>handler.go\<close>. Frames and the event handler, the start of the network
    and the clock, and the handler of DHCP leases.
  \<^item> \<open>RunWitness\<close>, \<open>Boot\<close>: \<open>main.go\<close>. The run of the witness, \<open>openStorage\<close>, and \<open>main\<close>, which composes the
    identities, the network and the storage.

  \<^bold>\<open>How the code is modelled\<close>

  A struct is a record, a function or method a definition of the same name (with the type in front where names
  clash: \<open>Slot_Read\<close>), its early returns are branches. A method that changes its receiver or the device returns
  them. Loops are recursive functions; those that may not end are partial functions into an option, where
  \<open>None\<close> is not ending. Goroutines and callbacks are step relations with a program counter each. Code that is not
  in the repository (the OS, YAML, notes, HKDF, gVisor, HTTP) is an argument of the definitions that use it.
  A mutex that is held for a whole operation is the atomicity of that operation.

  \<^bold>\<open>What is proved\<close>

  \<^item> Storage (this theory, \<open>Entry\<close>): the last stored checkpoint survives updates, torn writes and restarts; updates
    of one log are atomic; on a card without errors an update succeeds. A torn record must be recognisable:
    its bytes on the card must not have the digest of the new data (\<open>torn_visible\<close>), and no block inside a
    record may begin with the magic of a record (\<open>safe_data\<close>). Revisions must not wrap around.
  \<^item> Limits of the storage (\<open>StorageLimits\<close>): a checkpoint that is lost, an error that is dropped, a record that
    makes the applet panic, a write that is not verified.
  \<^item> Firmware: a bundle arrives whole, with its proof on the last request; the keys of the OS and the applet are
    not interchangeable; the invariants of the update checker, and how its ticker can be left behind.
  \<^item> Identities: what the keys depend on, what the attestations sign, and that no two purposes share a key.
  \<^item> Network: frames round trip and are all delivered; the MAC address is valid; the clock signals once; at most one
    witness runs, and only while its address is leased.
  \<^item> Start: the order of \<open>main\<close>, the layout of the slots on the card, and that a blank device boots to a storage that
    the first group of theorems speaks about.

  \<^bold>\<open>What is not modelled\<close>

  The registration of metrics, log output, linker symbols (\<open>mem.go\<close>) and timeouts of HTTP clients. The DHCP client
  of \<open>third_party\<close>: the lease handler relies on the order of its callbacks only.
\<close>

section \<open>The witness persistence\<close>



text \<open>
  C2. Concurrent updates of a log cannot overwrite each other. When the write of an update succeeds, the data
  and the revision that the update read at its start are still the stored ones, and \<open>Latest\<close> then
  returns the new checkpoint.
\<close>

theorem update_atomic:
  assumes "card_rpc rpc bs cblocks cok" "directory_codec cx"
    and "pers_reach (MmcDevice rpc bs) cblocks cok cx geo d p S W" "(logfmt_ID cx origin, (i, t, b), base) \<in> W"
    and "Update_commit (MmcDevice rpc bs) d p (i, t, b) = (Ok (), d', p')"
    and "safe_data bs b" "snd (the (S (logfmt_ID cx origin))) + 1 \<noteq> 0"
  shows "S (logfmt_ID cx origin) = Some (base, t) \<and>
    fst (Latest (MmcDevice rpc bs) cx d' p' origin) = latest_of cx (Some (b, t + 1))"
proof -
  note P = persistence.intro [OF card_rpc.mmc_device [OF assms(1)] assms(2)]
  have "safe_data (BlockSize (MmcDevice rpc bs)) b" using assms(6) by simp
  note A = assms(3-5) this assms(7)
  have "fst (Latest (MmcDevice rpc bs) cx d' p' origin) = latest_of cx (Some (b, t + 1))"
    using persistence.pers_recover [OF P pers_reach.k_commit [OF A], of origin] by simp
  with persistence.pers_atomic [OF P A] show ?thesis by blast
qed

theorem update_atomic_witness:
  "\<exists>d p. fst (Latest demo_dev line_codec d p ''a'') = Ok demo_cp"
proof -
  obtain d p i t b d' p' where h: "pers_reach demo_dev card_data (card_good 64) line_codec demo_geo d p
      [''61'' \<mapsto> ([], 0)] {(''61'', (i, t, b), [])}" "Update_commit demo_dev d p (i, t, b) = (Ok (), d', p')"
    "b = marshalCheckpoint demo_cp" using demo_pending by fastforce
  from update_atomic [OF demo_rpc lines.directory_codec_axioms h(1), of "''a''" i t b "[]"] h(2,3) show ?thesis
    by (auto simp: demo_id demo_safe)
qed

text \<open>
  C3. A successful \<open>Update\<close> computes the new checkpoint from the one that is stored, \<open>Latest\<close>
  then returns the new one, and \<open>Latest\<close> of every other log is what it was.
\<close>

theorem update_then_latest:
  assumes "card_rpc rpc bs cblocks cok" "directory_codec cx"
    and "pers_reach (MmcDevice rpc bs) cblocks cok cx geo d p S W"
    and "Update (MmcDevice rpc bs) cx d p origin f = (Ok (), d', p')"
    and "directoryWriteToken p + 1 \<noteq> 0"
    and "\<forall>a. S (logfmt_ID cx origin) = Some a \<longrightarrow> snd a + 1 \<noteq> 0"
    and "\<forall>cur new. f cur = Ok new \<longrightarrow> safe_data bs (marshalCheckpoint new)"
  shows "\<exists>cur new. unmarshalCheckpoint cx (case S (logfmt_ID cx origin) of None \<Rightarrow> [] | Some a \<Rightarrow> fst a) = Ok cur \<and>
    f cur = Ok new \<and> fst (Latest (MmcDevice rpc bs) cx d' p' origin) = Ok new \<and>
    (\<forall>other. logfmt_ID cx other \<noteq> logfmt_ID cx origin \<longrightarrow>
      fst (Latest (MmcDevice rpc bs) cx d' p' other) = fst (Latest (MmcDevice rpc bs) cx d p other))"
  by (rule persistence.Update_Latest [OF persistence.intro [OF card_rpc.mmc_device [OF assms(1)] assms(2)] assms(3-5) refl assms(6)])
    (use assms(7) in simp)

theorem update_then_latest_witness:
  "\<exists>d p d' p'. Update demo_dev line_codec d p ''a'' (\<lambda>_. Ok demo_cp) = (Ok (), d', p') \<and>
    fst (Latest demo_dev line_codec d' p' ''a'') = Ok demo_cp"
proof -
  obtain d p d' p' where h: "pers_reach demo_dev card_data (card_good 64) line_codec demo_geo d p Map.empty {}"
    "directoryWriteToken p = 0" "Update demo_dev line_codec d p ''a'' (\<lambda>_. Ok demo_cp) = (Ok (), d', p')"
    using demo_update by blast
  from update_then_latest [OF demo_rpc lines.directory_codec_axioms h(1,3)] h show ?thesis
    by (auto simp: demo_safe)
qed

text \<open>
  C4. On a card that reports no error, an \<open>Update\<close> whose function returns a checkpoint that fits a third
  of every slot succeeds, for a new log when a slot is free and the grown directory fits as well.
\<close>

theorem update_live:
  assumes "0 < bs" "bs dvd MaxTransferBytes" "directory_codec cx"
    and "pers_reach (MmcDevice (card_os bs) bs) card_data (card_good bs) cx geo d p S W"
    and lid: "lid = logfmt_ID cx origin" and "directoryWriteToken p + 1 \<noteq> 0"
    and "unmarshalCheckpoint cx (case S lid of None \<Rightarrow> [] | Some a \<Rightarrow> fst a) = Ok cur" "f cur = Ok new"
    and "\<forall>l \<in> set (SlotLengths geo). entryHeaderSize + length (marshalCheckpoint new) \<le> l * bs div minEntries"
    and "S lid = None \<longrightarrow> freeSlots p \<noteq> [] \<and>
      entryHeaderSize + length (dir_bytes cx (AList.update lid (hd (freeSlots p)) (idToSlot p))) \<le>
        SlotLengths geo ! 0 * bs div minEntries"
  shows "\<exists>d' p'. Update (MmcDevice (card_os bs) bs) cx d p origin f = (Ok (), d', p')"
  by (rule persistence.Update_live [OF persistence.intro [OF card_rpc.mmc_device [OF card_good_rpc [OF assms(1,2)]] assms(3)]
      assms(4) card_reliable [OF assms(1)] lid assms(6,7), where f = f and new = new])
    (use assms(8-10) in simp_all)

theorem update_live_witness:
  "\<exists>d p d' p'. Update demo_dev line_codec d p ''a'' (\<lambda>_. Ok demo_cp) = (Ok (), d', p')"
proof -
  obtain p where p: "pers_reach demo_dev card_data (card_good 64) line_codec demo_geo demo_card p Map.empty {}"
    "directoryWriteToken p = 0" "freeSlots p = [1]" "idToSlot p = []" using demo_init by blast
  have "\<exists>d' p'. Update demo_dev line_codec demo_card p ''a'' (\<lambda>_. Ok demo_cp) = (Ok (), d', p')"
    by (rule update_live [OF _ _ lines.directory_codec_axioms p(1) refl, where cur = "[]" and new = demo_cp])
      (simp_all add: p demo_id MaxTransferBytes_def unmarshalCheckpoint_def rawRecordMagic_def lines.checkpoint_empty demo_geo_def
        entryHeaderSize_def marshalCheckpoint_def demo_cp_def minEntries_def dir_bytes_def line_codec_def)
  then show ?thesis by blast
qed

section \<open>Slots and journals on the card\<close>

text \<open>
  C8. A partition behaves as a list of independent registers of data and revision: after any opens, successful
  and failed \<open>CheckAndWrite\<close> calls and restarts, every slot opens and \<open>Read\<close> returns what was last
  written to that slot and to no other.
\<close>

theorem partition_registers:
  assumes "card_rpc rpc bs cblocks cok"
    and "part_reach (MmcDevice rpc bs) cblocks cok geo d p regs" "i < length (SlotLengths geo)"
  shows "\<exists>p'. Partition_Open (MmcDevice rpc bs) d p i = (Ok i, p') \<and> Slot_Read (p_slots p' ! i) = Ok (regs ! i)"
  by (rule block_device.part_registers [OF card_rpc.mmc_device [OF assms(1)] assms(2,3)])

theorem partition_registers_witness:
  "\<exists>pt p'. OpenPartition demo_geo = Ok pt \<and> Partition_Open demo_dev demo_card pt 1 = (Ok 1, p') \<and>
    Slot_Read (p_slots p' ! 1) = Ok ([], 0)"
proof -
  obtain pt where pt: "OpenPartition demo_geo = Ok pt" using demo_part by blast
  have "part_reach demo_dev card_data (card_good 64) demo_geo demo_card pt (replicate (length (SlotLengths demo_geo)) ([], 0))"
    by (rule part_reach.pr_init) (use demo_card_ok(1) demo_geo_ok demo_blank pt in simp_all)
  from partition_registers [OF demo_rpc this, of 1] pt show ?thesis by (auto simp: demo_geo_def)
qed

text \<open>
  C7. The journal survives: after any updates, update failures whose torn record is recognisable, writes to
  other blocks and reopenings, the journal in memory and the journal that a fresh \<open>OpenJournal\<close> finds
  both have the data and the revision of the last successful update.
\<close>

theorem journal_survives:
  assumes "card_rpc rpc bs cblocks cok" "jreach (MmcDevice rpc bs) cblocks cok start len d j a"
  shows "journal_Data j = a \<and> (\<exists>j'. OpenJournal (MmcDevice rpc bs) d start len = Ok j' \<and> journal_Data j' = a)"
  by (rule block_device.recover [OF card_rpc.mmc_device [OF assms(1)] assms(2)])

theorem journal_survives_witness:
  "\<exists>d j. journal_Data j = ([7, 8], 1) \<and> OpenJournal demo_dev d 6 6 = Ok j"
proof -
  have g: "journal_geom (BlockSize demo_dev) (length (card_data demo_card)) 6 6"
    by (simp add: journal_geom_def demo_card_ok entryHeaderSize_def W32_def)
  from demo.open_empty [OF demo_card_ok(1) g demo_blank] obtain j where
    j: "OpenJournal demo_dev demo_card 6 6 = Ok j" "journal_inv (BlockSize demo_dev) (card_data demo_card) 6 6 j" by blast
  have r: "jreach demo_dev card_data (card_good 64) 6 6 demo_card j ([], 0)"
    by (rule jreach.jr_open) (use demo_card_ok(1) g demo_blank j(1) in blast)+
  have rel: "reliable demo_dev card_data (card_good 64)" by (rule card_reliable) simp
  obtain d' j' where u: "journal_Update demo_dev demo_card j [7, 8] = (Ok (), d', j')"
    using demo.update_succeeds [OF demo_card_ok(1) g j(2) rel, of "[7, 8]"]
    by (auto simp: entryHeaderSize_def minEntries_def)
  have "safe_data (BlockSize demo_dev) [7, 8]" by (simp add: safe_data_def entryHeaderSize_def chunks.simps)
  then have "jreach demo_dev card_data (card_good 64) 6 6 d' j' ([7, 8], 0 + 1)"
    by (intro jreach.jr_update [OF r u]) simp_all
  from journal_survives [OF demo_rpc this] show ?thesis by auto
qed

text \<open>
  C9. An \<open>Update\<close> of a journal, also one that fails, changes no block outside the journal's range, and it
  never panics.
\<close>

theorem journal_update_local:
  assumes "card_rpc rpc bs cblocks cok" "cok d" "journal_geom bs (length (cblocks d)) start len"
    and "journal_inv bs (cblocks d) start len j" "journal_Update (MmcDevice rpc bs) d j data = (r, d', j')"
  shows "length (cblocks d') = length (cblocks d) \<and> (\<forall>p. r \<noteq> Panic p) \<and>
    (\<forall>i < length (cblocks d). i < start \<or> start + len \<le> i \<longrightarrow> cblocks d' ! i = cblocks d ! i)"
  using block_device.update_frame [OF card_rpc.mmc_device [OF assms(1)] assms(2), of start len j data r d' j'] assms(3-5)
  by simp

theorem journal_update_local_witness:
  "\<exists>j r d' j'. OpenJournal demo_dev demo_card 6 6 = Ok j \<and> journal_Update demo_dev demo_card j [7, 8] = (r, d', j') \<and>
    card_data d' ! 0 = replicate 64 0"
proof -
  have g: "journal_geom 64 (length (card_data demo_card)) 6 6"
    by (simp add: journal_geom_def demo_card_ok entryHeaderSize_def W32_def)
  from demo.open_empty [OF demo_card_ok(1) _ demo_blank] g obtain j where
    j: "OpenJournal demo_dev demo_card 6 6 = Ok j" "journal_inv 64 (card_data demo_card) 6 6 j" by auto
  obtain r d' j' where u: "journal_Update demo_dev demo_card j [7, 8] = (r, d', j')" by (metis prod_cases3)
  from journal_update_local [OF demo_rpc demo_card_ok(1) g j(2) u] have "card_data d' ! 0 = replicate 64 0"
    by (simp add: demo_card_ok)
  with j(1) u show ?thesis by blast
qed

text \<open>
  C10. On a card that reports no error, \<open>Erase\<close> leaves every slot of the partition empty: each opens and
  reads no data at revision 0.
\<close>

theorem erase_clears:
  assumes "bs dvd MaxTransferBytes" "entryHeaderSize \<le> bs"
    and "card_good bs d" "part_wf bs (length (card_data d)) p"
    and "list_all (\<lambda>s. 0 < s_length s \<and> s_length s * bs < W32 div 2) (p_slots p)"
  shows "\<exists>d' p'. Partition_Erase (MmcDevice (card_os bs) bs) d p = (Ok (), d', p') \<and>
    (\<forall>i < length (p_slots p). \<exists>p''. Partition_Open (MmcDevice (card_os bs) bs) d' p' i = (Ok i, p'') \<and>
      Slot_Read (p_slots p'' ! i) = Ok ([], 0))"
proof -
  have bs: "0 < bs" "48 \<le> bs" using assms(2) by (simp_all add: entryHeaderSize_def)
  note D = card_rpc.mmc_device [OF card_good_rpc [OF bs(1) assms(1)]]
  from block_device.Erase_blank [OF D card_reliable [OF bs(1)] assms(3), of p] assms(4,5) bs(2) obtain d' p' where
    h: "Partition_Erase (MmcDevice (card_os bs) bs) d p = (Ok (), d', p')" "card_good bs d'"
      "part_rep (BlockSize (MmcDevice (card_os bs) bs)) (card_data d') p' (replicate (length (p_slots p)) ([], 0))" by auto
  have "length (p_slots p') = length (p_slots p)" using h(3) by (auto simp: part_rep_def dest: list_all2_lengthD)
  then have "\<exists>p''. Partition_Open (MmcDevice (card_os bs) bs) d' p' i = (Ok i, p'') \<and> Slot_Read (p_slots p'' ! i) = Ok ([], 0)"
    if "i < length (p_slots p)" for i
    using block_device.Partition_Open_rep [OF D h(2,3), of i] that by auto
  with h(1) show ?thesis by blast
qed

theorem erase_clears_witness:
  "\<exists>pt d' p'. OpenPartition demo_geo = Ok pt \<and> Partition_Erase demo_dev demo_card pt = (Ok (), d', p')"
proof -
  obtain pt where pt: "OpenPartition demo_geo = Ok pt" "part_wf 64 (length (card_data demo_card)) pt"
    using OpenPartition_layout [OF demo_geo_ok] by auto
  have "list_all (\<lambda>s. 0 < s_length s \<and> s_length s * 64 < W32 div 2) (p_slots pt)"
    using pt(1) by (auto simp: OpenPartition_def Geometry_Validate_def demo_geo_def uadd_def W32_def split: if_splits)
  from erase_clears [OF _ _ demo_card_ok(1) pt(2) this] pt(1) show ?thesis
    by (auto simp: MaxTransferBytes_def entryHeaderSize_def)
qed

end
